theory Spec2Isabelle
  imports Main "HOL-Library.AList" "HOL-Library.List_Lexorder" "HOL-Library.Char_ord"
    "HOL-Library.Product_Lexorder" "HOL-Library.Multiset"
begin


section \<open>Python strings (ASCII)\<close>

text \<open>
  A Python \<open>str\<close> is modelled as a \<open>string\<close> (a list of 8-bit characters). The
  character classes below are the ASCII ones: \<open>\d\<close>, \<open>str.isdigit\<close>, \<open>str.lower\<close> and
  \<open>int\<close> also accept digits and letters outside ASCII, which file names and period strings
  of this data set do not contain.
\<close>

definition is_digit :: "char \<Rightarrow> bool" where
  "is_digit c \<longleftrightarrow> c \<in> set ''0123456789''"

definition digit_val :: "char \<Rightarrow> int" where
  "digit_val c = int (of_char c) - 48"

definition digit_char :: "nat \<Rightarrow> char" where
  "digit_char n = ''0123456789'' ! n"

text \<open>\<open>int(s)\<close> for a string of ASCII digits only (a regular-expression group \<open>\d...\<close>).\<close>

definition int_of_digits :: "string \<Rightarrow> int" where
  "int_of_digits ds = foldl (\<lambda>a c. 10 * a + digit_val c) 0 ds"

text \<open>\<open>s.startswith(p)\<close>, \<open>s.endswith(p)\<close> and \<open>sub in s\<close>.\<close>

definition startswith :: "string \<Rightarrow> string \<Rightarrow> bool" where
  "startswith s p \<longleftrightarrow> take (length p) s = p"

definition endswith :: "string \<Rightarrow> string \<Rightarrow> bool" where
  "endswith s p \<longleftrightarrow> length p \<le> length s \<and> drop (length s - length p) s = p"

fun str_contains :: "string \<Rightarrow> string \<Rightarrow> bool" where
  "str_contains sub [] = (sub = [])"
| "str_contains sub (c # cs) = (startswith (c # cs) sub \<or> str_contains sub cs)"

definition lower_char :: "char \<Rightarrow> char" where
  "lower_char c =
     (case map_of (zip ''ABCDEFGHIJKLMNOPQRSTUVWXYZ'' ''abcdefghijklmnopqrstuvwxyz'') c of
        Some d \<Rightarrow> d
      | None \<Rightarrow> c)"

definition lower :: "string \<Rightarrow> string" where
  "lower s = map lower_char s"

text \<open>\<open>str(n)\<close> for an integer.\<close>

fun string_of_nat :: "nat \<Rightarrow> string" where
  "string_of_nat n =
     (if n < 10 then [digit_char n]
      else string_of_nat (n div 10) @ [digit_char (n mod 10)])"

declare string_of_nat.simps [simp del]

definition str_of_int :: "int \<Rightarrow> string" where
  "str_of_int i = (if i < 0 then CHR ''-'' # string_of_nat (nat (- i)) else string_of_nat (nat i))"

section \<open>utils.py: the version resolver\<close>

subsection \<open>extract_year_quarter_from_filename\<close>

text \<open>
  \<open>re.search(r'(\d{4})(\d{2})', filename)\<close>: the leftmost position where six digits follow
  one another; the groups are the first four and the next two of them.
\<close>

fun year_search :: "string \<Rightarrow> (string \<times> string) option" where
  "year_search [] = None"
| "year_search (c # cs) =
     (if 6 \<le> length (c # cs) \<and> list_all is_digit (take 6 (c # cs))
      then Some (take 4 (c # cs), take 2 (drop 4 (c # cs)))
      else year_search cs)"

text \<open>
  \<open>re.search(r'-q(\d)', filename, re.IGNORECASE)\<close>: the leftmost \<open>-\<close>, then \<open>q\<close> or
  \<open>Q\<close>, then one digit; the group is the digit.
\<close>

fun quarter_search :: "string \<Rightarrow> char option" where
  "quarter_search (a # b # c # cs) =
     (if a = CHR ''-'' \<and> (b = CHR ''q'' \<or> b = CHR ''Q'') \<and> is_digit c then Some c
      else quarter_search (b # c # cs))"
| "quarter_search _ = None"

text \<open>The dictionary literal \<open>month_map\<close>, in its insertion order (the order the loop reads).\<close>

definition month_map :: "(string \<times> int) list" where
  "month_map =
     [(''jan'', 1), (''feb'', 2), (''mar'', 3), (''apr'', 4), (''may'', 5), (''jun'', 6),
      (''jul'', 7), (''aug'', 8), (''sep'', 9), (''oct'', 10), (''nov'', 11), (''dec'', 12),
      (''january'', 1), (''february'', 2), (''march'', 3), (''april'', 4), (''june'', 6),
      (''july'', 7), (''august'', 8), (''september'', 9), (''october'', 10),
      (''november'', 11), (''december'', 12)]"

definition extract_year_quarter_from_filename :: "string \<Rightarrow> int \<times> int \<times> int" where
  "extract_year_quarter_from_filename filename =
     (case year_search filename of
        None \<Rightarrow> (0, 0, 0)
      | Some (g1, g2) \<Rightarrow>
          (let year_start = int_of_digits g1;
               year_end = int_of_digits g2
           in case quarter_search filename of
                Some d \<Rightarrow> (year_start, year_end, int_of_digits [d])
              | None \<Rightarrow>
                  (case find (\<lambda>(month_name, month_num). str_contains month_name (lower filename))
                          month_map of
                     Some (month_name, month_num) \<Rightarrow> (year_start, year_end, month_num)
                   | None \<Rightarrow> (year_start, year_end, 0))))"

text \<open>
  Where a match of \<open>\d{4}\d{2}\<close>, and of \<open>-q\d\<close> ignoring case, starts in a file name.
\<close>

definition six_digits_at :: "string \<Rightarrow> nat \<Rightarrow> bool" where
  "six_digits_at f i \<longleftrightarrow> i + 6 \<le> length f \<and> list_all is_digit (take 6 (drop i f))"

definition quarter_token_at :: "string \<Rightarrow> nat \<Rightarrow> bool" where
  "quarter_token_at f i \<longleftrightarrow>
     i + 3 \<le> length f \<and> f ! i = CHR ''-'' \<and>
     (f ! (i + 1) = CHR ''q'' \<or> f ! (i + 1) = CHR ''Q'') \<and> is_digit (f ! (i + 2))"

subsection \<open>Paths\<close>

text \<open>\<open>os.path.basename\<close>, \<open>os.path.dirname\<close> and \<open>os.path.join\<close> of \<open>posixpath\<close>.\<close>

definition basename :: "string \<Rightarrow> string" where
  "basename p = rev (takeWhile (\<lambda>c. c \<noteq> CHR ''/'') (rev p))"

definition dirname :: "string \<Rightarrow> string" where
  "dirname p =
     (let head = rev (dropWhile (\<lambda>c. c \<noteq> CHR ''/'') (rev p))
      in if head \<noteq> [] \<and> \<not> list_all (\<lambda>c. c = CHR ''/'') head
         then rev (dropWhile (\<lambda>c. c = CHR ''/'') (rev head))
         else head)"

definition path_join2 :: "string \<Rightarrow> string \<Rightarrow> string" where
  "path_join2 a b =
     (if startswith b ''/'' then b
      else if a = [] \<or> endswith a ''/'' then a @ b
      else a @ ''/'' @ b)"

definition path_join :: "string \<Rightarrow> string \<Rightarrow> string \<Rightarrow> string" where
  "path_join a b c = path_join2 (path_join2 a b) c"

subsection \<open>find_latest_file and extract_from_zip_if_needed\<close>

text \<open>
  \<open>xs.sort(key=f, reverse=True)\<close>: CPython reverses the list, sorts it stably in ascending
  order of the key and reverses the result, so elements with equal keys keep their order.
\<close>

definition sort_reverse :: "('a \<Rightarrow> 'k::linorder) \<Rightarrow> 'a list \<Rightarrow> 'a list" where
  "sort_reverse f xs = rev (sort_key f (rev xs))"

text \<open>The nested function \<open>sort_key(filepath)\<close> of both resolvers.\<close>

definition file_sort_key :: "string \<Rightarrow> int \<times> int \<times> int" where
  "file_sort_key filepath = extract_year_quarter_from_filename (basename filepath)"

text \<open>
  The directory tree is read through \<open>glob.glob\<close> only; it is the parameter \<open>glob\<close>, from a
  pattern to the paths that match it, in the order the call lists them.
\<close>

text \<open>
  Lines 223-234 of \<open>find_latest_file\<close>: the candidates, the working directory's first and
  then each versioned folder's.
\<close>

definition all_files ::
  "(string \<Rightarrow> string list) \<Rightarrow> string \<Rightarrow> string \<Rightarrow> string \<Rightarrow> string list" where
  "all_files glob file_pattern folder_prefix subfolder =
     (let root_files = glob file_pattern;
          folders = glob (folder_prefix @ ''_*'')
      in root_files @
           concat (map (\<lambda>folder. glob (path_join folder subfolder file_pattern)) folders))"

definition find_latest_file ::
  "(string \<Rightarrow> string list) \<Rightarrow> string \<Rightarrow> string \<Rightarrow> string \<Rightarrow> string option" where
  "find_latest_file glob file_pattern folder_prefix subfolder =
     (let fs = all_files glob file_pattern folder_prefix subfolder
      in if fs = [] then None
         else Some (hd (sort_reverse file_sort_key fs)))"

text \<open>
  The archive is read through \<open>ZipFile.namelist\<close>, the parameter \<open>namelist\<close> (\<open>None\<close> when
  opening the archive raises). The one file operation, \<open>zip_ref.extract(member, path)\<close>, is
  returned as an effect beside the result.
\<close>

datatype error = ValueError | IndexError | BadZipFile

datatype fs_effect = ZipExtract string string string

text \<open>Lines 267-274 of \<open>extract_from_zip_if_needed\<close>: the candidate archives.\<close>

definition all_zip_files ::
  "(string \<Rightarrow> string list) \<Rightarrow> string \<Rightarrow> string \<Rightarrow> string \<Rightarrow> string list" where
  "all_zip_files glob zip_pattern folder_prefix subfolder =
     (let folders = glob (folder_prefix @ ''_*'')
      in concat (map (\<lambda>folder. glob (path_join folder subfolder zip_pattern)) folders))"

definition extract_from_zip_if_needed ::
  "(string \<Rightarrow> string list) \<Rightarrow> (string \<Rightarrow> string list option) \<Rightarrow>
   string \<Rightarrow> string \<Rightarrow> string \<Rightarrow> error + (string option \<times> fs_effect list)" where
  "extract_from_zip_if_needed glob namelist zip_pattern folder_prefix subfolder =
     (let zs = all_zip_files glob zip_pattern folder_prefix subfolder
      in if zs = [] then Inr (None, [])
         else
           (let zip_file = hd (sort_reverse file_sort_key zs)
            in case namelist zip_file of
                 None \<Rightarrow> Inl BadZipFile
               | Some names \<Rightarrow>
                   (let csv_files = filter (\<lambda>f. endswith f ''.csv'') names
                    in if csv_files \<noteq> []
                       then (let extract_path = dirname zip_file
                             in Inr (Some (path_join2 extract_path (hd csv_files)),
                                     [ZipExtract zip_file (hd csv_files) extract_path]))
                       else Inr (None, []))))"

subsection \<open>Example directory listings\<close>

text \<open>
  A working directory holding a file of 2023-24, and two versioned folders: the first found
  holds two files of 2024-25, the second a copy of the newer of them.
\<close>

definition glob_example :: "string \<Rightarrow> string list" where
  "glob_example p =
     (if p = ''app-underlying-data-vacancies-*.csv''
        then [''app-underlying-data-vacancies-202324-q4.csv'']
      else if p = ''apprenticeships_*'' then [''apprenticeships_2024-25'', ''apprenticeships_2023-24'']
      else if p = ''apprenticeships_2024-25/supporting-files/app-underlying-data-vacancies-*.csv''
        then [''apprenticeships_2024-25/supporting-files/app-underlying-data-vacancies-202425-q1.csv'',
              ''apprenticeships_2024-25/supporting-files/app-underlying-data-vacancies-202425-q2.csv'']
      else if p = ''apprenticeships_2023-24/supporting-files/app-underlying-data-vacancies-*.csv''
        then [''apprenticeships_2023-24/supporting-files/app-underlying-data-vacancies-202425-q2.csv'']
      else [])"

text \<open>A starts archive in the working directory only; the versioned folder holds none.\<close>

definition glob_cwd_only :: "string \<Rightarrow> string list" where
  "glob_cwd_only p =
     (if p = ''app-underlying-data-starts-*.zip'' then [''app-underlying-data-starts-202425-q1.zip'']
      else if p = ''apprenticeships_*'' then [''apprenticeships_2024-25'']
      else [])"

section \<open>Python dictionaries and integer parsing\<close>

text \<open>
  A \<open>dict\<close> is an association list in insertion order: \<open>d[k] = v\<close> is \<open>AList.update k v d\<close>
  (an old key keeps its place, a new key goes last), \<open>d.get(k, default)\<close> is \<open>dict_get\<close>,
  \<open>k in d\<close> is \<open>k \<in> set (map fst d)\<close>, \<open>d.items()\<close> is the list itself.
\<close>

definition dict_get :: "('k \<times> 'v) list \<Rightarrow> 'k \<Rightarrow> 'v \<Rightarrow> 'v" where
  "dict_get d k dflt = (case map_of d k of None \<Rightarrow> dflt | Some v \<Rightarrow> v)"

text \<open>
  \<open>int(s)\<close> for a string: surrounding white space is dropped, one sign may lead, the rest is
  decimal digits with single underscores between digits; anything else raises \<open>ValueError\<close>
  (\<open>None\<close> here).
\<close>

definition is_space :: "char \<Rightarrow> bool" where
  "is_space c \<longleftrightarrow> of_char c \<in> set [9, 10, 11, 12, 13, 28, 29, 30, 31, 32 :: nat]"

definition strip :: "string \<Rightarrow> string" where
  "strip s = rev (dropWhile is_space (rev (dropWhile is_space s)))"

fun parse_digits :: "int \<Rightarrow> string \<Rightarrow> int option" where
  "parse_digits acc [] = Some acc"
| "parse_digits acc [c] = (if is_digit c then Some (10 * acc + digit_val c) else None)"
| "parse_digits acc (c # d # cs) =
     (if is_digit c then parse_digits (10 * acc + digit_val c) (d # cs)
      else if c = CHR ''_'' \<and> is_digit d then parse_digits acc (d # cs)
      else None)"

definition py_int :: "string \<Rightarrow> int option" where
  "py_int s =
     (let t = strip s;
          sign = (if startswith t ''-'' then - 1 else 1);
          body = (if startswith t ''-'' \<or> startswith t ''+'' then tl t else t)
      in case body of
           [] \<Rightarrow> None
         | c # cs \<Rightarrow>
             (if is_digit c then map_option (\<lambda>n. sign * n) (parse_digits (digit_val c) cs)
              else None))"

text \<open>\<open>s.split(' Q')\<close>: the pieces of \<open>s\<close> between the occurrences of \<open>' Q'\<close>, left to right.\<close>

fun split_Q :: "string \<Rightarrow> string \<Rightarrow> string list" where
  "split_Q acc (a # b # cs) =
     (if a = CHR '' '' \<and> b = CHR ''Q'' then rev acc # split_Q [] cs
      else split_Q (a # acc) (b # cs))"
| "split_Q acc [a] = [rev (a # acc)]"
| "split_Q acc [] = [rev acc]"

section \<open>starts.py: aggregation, column plan and row shaping\<close>

text \<open>
  One element of \<open>starts_data\<close>, the dictionary \<open>extract_apprenticeship_starts\<close> builds per
  row of the CSV file.
\<close>

record starts_record =
  provider :: string
  provider_clean :: string
  year :: string
  quarter :: int
  starts :: int
  standard_code :: string
  standard_name :: string

type_synonym year_data = "(string \<times> int) list"
type_synonym aggregated = "(string \<times> year_data) list"

subsection \<open>aggregate_starts_by_provider_year\<close>

text \<open>Lines 137-140: the key a record is counted under.\<close>

definition year_key_of :: "string option \<Rightarrow> starts_record \<Rightarrow> string" where
  "year_key_of most_recent_year record =
     (if most_recent_year \<noteq> None \<and> most_recent_year \<noteq> Some [] \<and>
         Some (year record) = most_recent_year \<and> quarter record > 0
      then year record @ '' Q'' @ str_of_int (quarter record)
      else year record)"

text \<open>The body of the loop over \<open>starts_data\<close>, lines 128-145.\<close>

definition aggregate_step :: "string option \<Rightarrow> aggregated \<Rightarrow> starts_record \<Rightarrow> aggregated" where
  "aggregate_step most_recent_year agg record =
     (let p = provider_clean record;
          agg1 = (if p \<notin> set (map fst agg) then AList.update p [] agg else agg);
          year_key = year_key_of most_recent_year record;
          pd = dict_get agg1 p [];
          pd1 = (if year_key \<notin> set (map fst pd) then AList.update year_key 0 pd else pd);
          pd2 = AList.update year_key (dict_get pd1 year_key 0 + starts record) pd1
      in AList.update p pd2 agg1)"

definition aggregate_starts_by_provider_year ::
  "starts_record list \<Rightarrow> string option \<Rightarrow> aggregated" where
  "aggregate_starts_by_provider_year starts_data most_recent_year =
     foldl (aggregate_step most_recent_year) [] starts_data"

subsection \<open>The column plan of prepare_starts_table_data\<close>

text \<open>
  \<open>all_year_keys\<close> is a Python \<open>set\<close>. Its elements are listed here in the order they are
  first seen; the order in which Python iterates the set is left open by the language, and
  is the parameter \<open>set_order\<close> of \<open>sorted_year_keys\<close> (a permutation of its argument).
\<close>

definition all_year_keys :: "aggregated \<Rightarrow> string list" where
  "all_year_keys agg = remdups (concat (map (\<lambda>(p, provider_data). map fst provider_data) agg))"

text \<open>The nested function \<open>sort_key(year_key)\<close>, lines 187-194.\<close>

definition sort_key_fn :: "string \<Rightarrow> error + (string \<times> int)" where
  "sort_key_fn year_key =
     (if str_contains '' Q'' year_key then
        (case split_Q [] year_key of
           [year_part, q_part] \<Rightarrow>
             (case py_int q_part of
                None \<Rightarrow> Inl ValueError
              | Some q \<Rightarrow> Inr (year_part, q))
         | _ \<Rightarrow> Inl ValueError)
      else Inr (year_key, 0))"

definition sort_key_val :: "string \<Rightarrow> string \<times> int" where
  "sort_key_val year_key = (case sort_key_fn year_key of Inr v \<Rightarrow> v | Inl e \<Rightarrow> ([], 0))"

text \<open>
  \<open>sorted(all_year_keys, key=sort_key)\<close>, line 196: the call raises when \<open>sort_key\<close> raises
  on some key, and is a stable sort in ascending order of the keys otherwise.
\<close>

definition sorted_year_keys :: "(string list \<Rightarrow> string list) \<Rightarrow> aggregated \<Rightarrow> error + string list" where
  "sorted_year_keys set_order agg =
     (let ks = set_order (all_year_keys agg)
      in if list_ex (\<lambda>k. isl (sort_key_fn k)) ks then Inl ValueError
         else Inr (sort_key sort_key_val ks))"

text \<open>Line 202.\<close>

definition quarterly_keys_of :: "string \<Rightarrow> string list \<Rightarrow> string list" where
  "quarterly_keys_of most_recent_year year_keys =
     filter (\<lambda>key. startswith key most_recent_year \<and> str_contains '' Q'' key) year_keys"

text \<open>
  What one round of the loop below appends: the key, with the total column in front of it
  when it is the first quarterly key.
\<close>

definition with_total :: "string \<Rightarrow> string list \<Rightarrow> string \<Rightarrow> string list" where
  "with_total mry qks k = (if str_contains '' Q'' k \<and> k = hd qks then [mry, k] else [k])"

text \<open>
  The loop of lines 205-215 with its accumulator \<open>final_year_keys\<close>; \<open>quarterly_keys[0]\<close>
  raises \<open>IndexError\<close> on an empty list.
\<close>

fun build_final_year_keys ::
  "string \<Rightarrow> string list \<Rightarrow> string list \<Rightarrow> string list \<Rightarrow> error + string list" where
  "build_final_year_keys most_recent_year quarterly_keys final_year_keys [] = Inr final_year_keys"
| "build_final_year_keys most_recent_year quarterly_keys final_year_keys (key # keys) =
     (if \<not> str_contains '' Q'' key
      then build_final_year_keys most_recent_year quarterly_keys (final_year_keys @ [key]) keys
      else (case quarterly_keys of
              [] \<Rightarrow> Inl IndexError
            | q0 # qs \<Rightarrow>
                if key = q0
                then build_final_year_keys most_recent_year quarterly_keys
                       (final_year_keys @ [most_recent_year, key]) keys
                else build_final_year_keys most_recent_year quarterly_keys
                       (final_year_keys @ [key]) keys))"

subsection \<open>Rows and totals\<close>

text \<open>\<open>ALWAYS_SHOW_PROVIDERS\<close> of config.py.\<close>

definition ALWAYS_SHOW_PROVIDERS :: "string list" where
  "ALWAYS_SHOW_PROVIDERS = [''FOUNDERS & CODERS'']"

text \<open>Lines 226-229 and 236-239: the starts under the keys that start with the most recent year.\<close>

definition recent_starts :: "string \<Rightarrow> year_data \<Rightarrow> int" where
  "recent_starts most_recent_year year_data =
     sum_list (map snd (filter (\<lambda>(key, n). startswith key most_recent_year) year_data))"

definition major_providers_of :: "string \<Rightarrow> int \<Rightarrow> aggregated \<Rightarrow> aggregated" where
  "major_providers_of most_recent_year min_starts agg =
     sort_reverse (\<lambda>x. recent_starts most_recent_year (snd x))
       (filter (\<lambda>(p, year_data). recent_starts most_recent_year year_data \<ge> min_starts \<or>
                                 p \<in> set ALWAYS_SHOW_PROVIDERS) agg)"

definition other_providers_of :: "string \<Rightarrow> int \<Rightarrow> aggregated \<Rightarrow> aggregated" where
  "other_providers_of most_recent_year min_starts agg =
     filter (\<lambda>(p, year_data). \<not> (recent_starts most_recent_year year_data \<ge> min_starts \<or>
                                   p \<in> set ALWAYS_SHOW_PROVIDERS)) agg"

text \<open>
  One entry of \<open>year_totals\<close> or \<open>other_totals\<close> (lines 244-255 and 260-271), summed over the
  given providers; the generator runs over the quarterly keys first and the providers inside.
\<close>

definition column_total :: "string \<Rightarrow> string list \<Rightarrow> aggregated \<Rightarrow> string \<Rightarrow> int" where
  "column_total most_recent_year quarterly_keys providers year_key =
     (if year_key = most_recent_year
      then sum_list (concat (map (\<lambda>q_key. map (\<lambda>(p, provider_data). dict_get provider_data q_key 0)
                                            providers) quarterly_keys))
      else sum_list (map (\<lambda>(p, provider_data). dict_get provider_data year_key 0) providers))"

text \<open>The dictionaries \<open>year_totals\<close> and \<open>other_totals\<close>, filled key by key.\<close>

definition totals_dict :: "string \<Rightarrow> string list \<Rightarrow> aggregated \<Rightarrow> string list \<Rightarrow> year_data" where
  "totals_dict most_recent_year quarterly_keys providers year_keys =
     foldl (\<lambda>d year_key. AList.update year_key
                (column_total most_recent_year quarterly_keys providers year_key) d) [] year_keys"

text \<open>Lines 284-291: the values of one provider's row.\<close>

definition row_value :: "string \<Rightarrow> string list \<Rightarrow> year_data \<Rightarrow> string \<Rightarrow> int" where
  "row_value most_recent_year quarterly_keys year_data year_key =
     (if year_key = most_recent_year
      then sum_list (map (\<lambda>q_key. dict_get year_data q_key 0) quarterly_keys)
      else dict_get year_data year_key 0)"

definition row_values :: "string \<Rightarrow> string list \<Rightarrow> string list \<Rightarrow> year_data \<Rightarrow> int list" where
  "row_values most_recent_year quarterly_keys year_keys year_data =
     map (row_value most_recent_year quarterly_keys year_data) year_keys"

text \<open>\<open>format_academic_year\<close> of utils.py and the header of one column (lines 274-275).\<close>

definition format_academic_year :: "string \<Rightarrow> string" where
  "format_academic_year y =
     (let year_digits = filter is_digit y
      in if length year_digits = 6 then take 4 year_digits @ ''-'' @ drop 4 year_digits else y)"

definition header_of :: "string \<Rightarrow> string" where
  "header_of year_key =
     format_academic_year (hd (split_Q [] year_key)) @
       (if str_contains '' Q'' year_key then '' Q'' @ split_Q [] year_key ! 1 else [])"

text \<open>
  A cell of the table: a number, or the text \<open>**n**\<close> the Total row holds for the number
  \<open>n\<close>. A row is its label and its cells.
\<close>

datatype cell = Num int | Bold int

type_synonym row = "string \<times> cell list"
type_synonym table = "string list \<times> row list \<times> string"

definition cell_value :: "cell \<Rightarrow> int" where
  "cell_value c = (case c of Num n \<Rightarrow> n | Bold n \<Rightarrow> n)"

definition no_data :: "string \<Rightarrow> table" where
  "no_data name = ([''Provider'', ''No data available''], [], name)"

text \<open>Lines 219-300: the table, from the final column keys on.\<close>

definition starts_table ::
  "string \<Rightarrow> string list \<Rightarrow> string list \<Rightarrow> aggregated \<Rightarrow> int \<Rightarrow> string \<Rightarrow> table" where
  "starts_table most_recent_year quarterly_keys year_keys agg min_starts title =
     (let major_providers = major_providers_of most_recent_year min_starts agg;
          other_providers = other_providers_of most_recent_year min_starts agg;
          year_totals = totals_dict most_recent_year quarterly_keys agg year_keys;
          other_totals = totals_dict most_recent_year quarterly_keys other_providers year_keys;
          headers = ''Provider'' # map header_of year_keys;
          total_row = (''**Total**'', map (\<lambda>year_key. Bold (dict_get year_totals year_key 0)) year_keys);
          major_rows = map (\<lambda>(p, year_data).
              (p, map Num (row_values most_recent_year quarterly_keys year_keys year_data)))
              major_providers;
          other_rows = (if other_providers \<noteq> []
              then [(''All other providers'',
                     map (\<lambda>year_key. Num (dict_get other_totals year_key 0)) year_keys)]
              else [])
      in (headers, total_row # major_rows @ other_rows, title))"

definition most_recent_year_of :: "starts_record list \<Rightarrow> string" where
  "most_recent_year_of starts_data = last (sort (remdups (map year starts_data)))"

definition prepare_starts_table_data ::
  "(string list \<Rightarrow> string list) \<Rightarrow> starts_record list \<Rightarrow> int \<Rightarrow> error + table" where
  "prepare_starts_table_data set_order starts_data min_starts =
     (if starts_data = [] then Inr (no_data ''Unknown Standard'')
      else
        (let title = standard_code (hd starts_data) @ '' '' @ standard_name (hd starts_data) @ '' starts'';
             sorted_base_years = sort (remdups (map year starts_data))
         in if sorted_base_years = [] then Inr (no_data (standard_name (hd starts_data)))
            else
              (let most_recent_year = last sorted_base_years;
                   agg = aggregate_starts_by_provider_year starts_data (Some most_recent_year)
               in case sorted_year_keys set_order agg of
                    Inl e \<Rightarrow> Inl e
                  | Inr year_keys \<Rightarrow>
                      if year_keys = [] then Inr (no_data (standard_name (hd starts_data)))
                      else
                        (let quarterly_keys = quarterly_keys_of most_recent_year year_keys
                         in case build_final_year_keys most_recent_year quarterly_keys [] year_keys of
                              Inl e \<Rightarrow> Inl e
                            | Inr final_year_keys \<Rightarrow>
                                Inr (starts_table most_recent_year quarterly_keys final_year_keys
                                       agg min_starts title)))))"

text \<open>\<open>aggregated.get(p, {}).get(k, 0)\<close>: the entry of the matrix, 0 where there is none.\<close>

definition matrix_get :: "aggregated \<Rightarrow> string \<Rightarrow> string \<Rightarrow> int" where
  "matrix_get agg p k = dict_get (dict_get agg p []) k 0"

text \<open>\<open>k in aggregated.get(p, {})\<close>: the matrix has an entry for provider \<open>p\<close> and key \<open>k\<close>.\<close>

definition has_key :: "aggregated \<Rightarrow> string \<Rightarrow> string \<Rightarrow> bool" where
  "has_key agg p k \<longleftrightarrow> k \<in> set (map fst (dict_get agg p []))"

section \<open>london_sme.py: adjustments and exclusions\<close>

text \<open>
  \<open>aggregate_starts_by_provider_year\<close>, the nested \<open>sort_key\<close> and the column plan of
  london_sme.py repeat those of starts.py line for line; the definitions above stand for both.
\<close>

definition fc_name :: string where
  "fc_name = ''FOUNDERS & CODERS''"

text \<open>The dictionary literal \<open>adjustments\<close>, lines 180-186, in insertion order.\<close>

definition adjustments :: year_data where
  "adjustments =
     [(''202425 Q3'', 1), (''202425 Q2'', 2), (''202425 Q1'', 1), (''202324'', 3), (''202223'', 2)]"

text \<open>One round of the loop of lines 188-191 on the dictionary \<open>aggregated[fc_name]\<close>.\<close>

definition adjust_step :: "year_data \<Rightarrow> string \<times> int \<Rightarrow> year_data" where
  "adjust_step pd adjustment =
     (case adjustment of (year_key, additional_starts) \<Rightarrow>
        (let pd1 = (if year_key \<notin> set (map fst pd) then AList.update year_key 0 pd else pd)
         in AList.update year_key (dict_get pd1 year_key 0 + additional_starts) pd1))"

definition apply_founders_coders_adjustments :: "aggregated \<Rightarrow> aggregated" where
  "apply_founders_coders_adjustments agg =
     (let agg1 = (if fc_name \<notin> set (map fst agg) then AList.update fc_name [] agg else agg)
      in AList.update fc_name (foldl adjust_step (dict_get agg1 fc_name []) adjustments) agg1)"

definition rogue_provider_names :: "string list" where
  "rogue_provider_names = [''LONDON COLLEGE OF GLOBAL EDUCATION'', ''CITY COLLEGE OF LONDON'']"

text \<open>
  Lines 268-271: each rogue name found is popped from \<open>aggregated\<close> and appended to
  \<open>rogue_providers\<close>. The result is \<open>(rogue_providers, aggregated)\<close>.
\<close>

fun pop_rogue :: "string list \<Rightarrow> aggregated \<Rightarrow> aggregated \<Rightarrow> aggregated \<times> aggregated" where
  "pop_rogue [] rogue_providers agg = (rogue_providers, agg)"
| "pop_rogue (rogue_name # names) rogue_providers agg =
     (if rogue_name \<in> set (map fst agg)
      then pop_rogue names (rogue_providers @ [(rogue_name, dict_get agg rogue_name [])])
             (AList.delete rogue_name agg)
      else pop_rogue names rogue_providers agg)"

text \<open>Line 279: \<open>max(..., default=0)\<close> over the values under keys without \<open>' Q'\<close>.\<close>

definition max_starts :: "year_data \<Rightarrow> int" where
  "max_starts year_data =
     (let vs = map snd (filter (\<lambda>(key, n). \<not> str_contains '' Q'' key) year_data)
      in if vs = [] then 0 else fold max (tl vs) (hd vs))"

definition london_major_providers :: "string \<Rightarrow> aggregated \<Rightarrow> aggregated" where
  "london_major_providers most_recent_year agg =
     sort_reverse (\<lambda>x. recent_starts most_recent_year (snd x))
       (filter (\<lambda>(p, year_data). max_starts year_data \<ge> 4) agg)"

definition london_small_providers :: "aggregated \<Rightarrow> aggregated" where
  "london_small_providers agg = filter (\<lambda>(p, year_data). \<not> max_starts year_data \<ge> 4) agg"

text \<open>Lines 262-375: the table, from the final column keys on.\<close>

definition london_table ::
  "string \<Rightarrow> string list \<Rightarrow> string list \<Rightarrow> aggregated \<Rightarrow> string \<Rightarrow> table" where
  "london_table most_recent_year quarterly_keys year_keys agg title =
     (let fc_data = dict_get agg fc_name [];
          agg1 = AList.delete fc_name agg;
          rogue_providers = fst (pop_rogue rogue_provider_names [] agg1);
          agg2 = snd (pop_rogue rogue_provider_names [] agg1);
          major_providers = london_major_providers most_recent_year agg2;
          small_providers = london_small_providers agg2;
          year_totals = totals_dict most_recent_year quarterly_keys
                          ((fc_name, fc_data) # major_providers @ small_providers) year_keys;
          small_totals = totals_dict most_recent_year quarterly_keys small_providers year_keys;
          headers = ''Provider'' # map header_of year_keys;
          fc_rows = (if fc_data \<noteq> []
              then [(fc_name, map Num (row_values most_recent_year quarterly_keys year_keys fc_data))]
              else []);
          major_rows = map (\<lambda>(p, year_data).
              (p, map Num (row_values most_recent_year quarterly_keys year_keys year_data)))
              major_providers;
          small_rows = (if small_providers \<noteq> []
              then [(''All other providers'',
                     map (\<lambda>year_key. Num (dict_get small_totals year_key 0)) year_keys)]
              else []);
          total_row = (''**Total**'', map (\<lambda>year_key. Bold (dict_get year_totals year_key 0)) year_keys);
          rogue_rows = map (\<lambda>(p, year_data).
              (p @ '' (closed)'', map Num (row_values most_recent_year quarterly_keys year_keys year_data)))
              rogue_providers
      in (headers, fc_rows @ major_rows @ small_rows @ [total_row] @ rogue_rows, title))"

definition prepare_london_sme_table_data ::
  "(string list \<Rightarrow> string list) \<Rightarrow> starts_record list \<Rightarrow> error + table" where
  "prepare_london_sme_table_data set_order starts_data =
     (if starts_data = [] then Inr (no_data ''Unknown Standard'')
      else
        (let title = standard_code (hd starts_data) @ '' '' @ standard_name (hd starts_data) @
                       '' starts (London SMEs only)'';
             sorted_base_years = sort (remdups (map year starts_data))
         in if sorted_base_years = [] then Inr (no_data (standard_name (hd starts_data)))
            else
              (let most_recent_year = last sorted_base_years;
                   agg = apply_founders_coders_adjustments
                           (aggregate_starts_by_provider_year starts_data (Some most_recent_year))
               in case sorted_year_keys set_order agg of
                    Inl e \<Rightarrow> Inl e
                  | Inr year_keys \<Rightarrow>
                      if year_keys = [] then Inr (no_data (standard_name (hd starts_data)))
                      else
                        (let quarterly_keys = quarterly_keys_of most_recent_year year_keys
                         in case build_final_year_keys most_recent_year quarterly_keys [] year_keys of
                              Inl e \<Rightarrow> Inl e
                            | Inr final_year_keys \<Rightarrow>
                                Inr (london_table most_recent_year quarterly_keys final_year_keys
                                       agg title)))))"

section \<open>Example records\<close>

definition rec :: "string \<Rightarrow> string \<Rightarrow> int \<Rightarrow> int \<Rightarrow> starts_record" where
  "rec p y q n =
     \<lparr>provider = p, provider_clean = p, year = y, quarter = q, starts = n,
      standard_code = ''ST0116'', standard_name = ''Software developer''\<rparr>"

text \<open>The sum of the \<open>i\<close>-th cells of some rows of a table.\<close>

definition column_sum :: "row list \<Rightarrow> nat \<Rightarrow> int" where
  "column_sum rows i = (\<Sum>r\<leftarrow>rows. cell_value (snd r ! i))"

text \<open>
  Four providers with starts 10, 2, 6 and 1 in the most recent year, and a record set with
  a closed provider, two providers below the London threshold, one above it and
  FOUNDERS & CODERS itself.
\<close>

definition starts_example :: "starts_record list" where
  "starts_example =
     [rec ''A'' ''202425'' 1 10, rec ''B'' ''202425'' 1 2, rec ''C'' ''202425'' 2 6,
      rec ''D'' ''202425'' 1 1]"

definition london_example :: "starts_record list" where
  "london_example =
     [rec ''A'' ''202425'' 1 5, rec ''CITY COLLEGE OF LONDON'' ''202425'' 2 7,
      rec ''B'' ''202425'' 2 1, rec ''M'' ''202324'' 0 6,
      rec ''FOUNDERS & CODERS'' ''202324'' 0 10]"

text \<open>The matrix of london_sme.py: the aggregation of the records, adjusted.\<close>

definition london_matrix :: "starts_record list \<Rightarrow> aggregated" where
  "london_matrix starts_data =
     apply_founders_coders_adjustments
       (aggregate_starts_by_provider_year starts_data (Some (most_recent_year_of starts_data)))"

text \<open>
  One provider in one year, with a record whose quarter is unknown (0) and a record of
  quarter 1.
\<close>

definition unknown_quarter_example :: "starts_record list" where
  "unknown_quarter_example = [rec ''A'' ''2024-25'' 0 4, rec ''A'' ''2024-25'' 1 5]"

text \<open>\<open>set_order\<close> lists its argument in some order, as iterating a set does.\<close>

definition permutes :: "(string list \<Rightarrow> string list) \<Rightarrow> bool" where
  "permutes set_order \<longleftrightarrow> (\<forall>xs. mset (set_order xs) = mset xs)"

text \<open>A record of quarter 5.\<close>

definition fifth_quarter_example :: "starts_record list" where
  "fifth_quarter_example = [rec ''A'' ''2024-25'' 5 4]"

text \<open>
  Records of three years, the most recent with quarters 1 and 2 (the older years carry
  quarters too, which the aggregation ignores).
\<close>

definition three_years_example :: "starts_record list" where
  "three_years_example =
     [rec ''A'' ''2022-23'' 3 4, rec ''A'' ''2023-24'' 2 5, rec ''B'' ''2024-25'' 2 1,
      rec ''A'' ''2024-25'' 1 6]"

text \<open>
  The most-recent-period total of a provider as starts.py computes it (lines 226-229), and
  the test of line 230 for a row of its own.
\<close>

definition recent_total :: "starts_record list \<Rightarrow> string \<Rightarrow> int" where
  "recent_total starts_data p =
     recent_starts (most_recent_year_of starts_data)
       (dict_get (aggregate_starts_by_provider_year starts_data
                    (Some (most_recent_year_of starts_data))) p [])"

definition shown_individually :: "starts_record list \<Rightarrow> int \<Rightarrow> string \<Rightarrow> bool" where
  "shown_individually starts_data min_starts p \<longleftrightarrow>
     recent_total starts_data p \<ge> min_starts \<or> p \<in> set ALWAYS_SHOW_PROVIDERS"

text \<open>
  Records of the most recent year without a quarter: a provider with 4 such starts and 1
  start in quarter 1 beside a provider with 2 starts, and a provider with 10 such starts
  beside a provider with 5 starts in quarter 1.
\<close>

definition quarterless_example :: "starts_record list" where
  "quarterless_example =
     [rec ''A'' ''2024-25'' 0 4, rec ''A'' ''2024-25'' 1 1, rec ''B'' ''2024-25'' 1 2]"

definition quarterless_first_example :: "starts_record list" where
  "quarterless_first_example = [rec ''A'' ''2024-25'' 0 10, rec ''B'' ''2024-25'' 1 5]"

text \<open>Records of quarters 7 and 5 of one year, the later quarter first.\<close>

definition high_quarters_example :: "starts_record list" where
  "high_quarters_example = [rec ''A'' ''2024-25'' 7 4, rec ''A'' ''2024-25'' 5 3]"




section \<open>Properties of the version resolver\<close>

lemma str_contains_iff: "str_contains sub s \<longleftrightarrow> (\<exists>a b. s = a @ sub @ b)"
proof (induction s)
  case Nil
  then show ?case by auto
next
  case (Cons c cs)
  show ?case
  proof
    assume "str_contains sub (c # cs)"
    then consider "startswith (c # cs) sub" | "str_contains sub cs" by auto
    then show "\<exists>a b. c # cs = a @ sub @ b"
    proof cases
      case 1
      then have "c # cs = [] @ sub @ drop (length sub) (c # cs)"
        unfolding startswith_def by (metis append_Nil append_take_drop_id)
      then show ?thesis by blast
    next
      case 2
      then obtain a b where "cs = a @ sub @ b" using Cons.IH by auto
      then have "c # cs = (c # a) @ sub @ b" by simp
      then show ?thesis by blast
    qed
  next
    assume "\<exists>a b. c # cs = a @ sub @ b"
    then obtain a b where ab: "c # cs = a @ sub @ b" by auto
    show "str_contains sub (c # cs)"
    proof (cases a)
      case Nil
      then have "startswith (c # cs) sub" using ab by (simp add: startswith_def)
      then show ?thesis by simp
    next
      case (Cons x a')
      then have "cs = a' @ sub @ b" using ab by simp
      then show ?thesis using Cons.IH by auto
    qed
  qed
qed

lemma year_search_None_iff':
  "year_search f = None \<longleftrightarrow> (\<forall>i. i + 6 \<le> length f \<longrightarrow> \<not> list_all is_digit (take 6 (drop i f)))"
proof (induction f)
  case Nil
  then show ?case by simp
next
  case (Cons c cs)
  show ?case
  proof
    assume h: "year_search (c # cs) = None"
    then have n0: "\<not> (6 \<le> length (c # cs) \<and> list_all is_digit (take 6 (c # cs)))"
      and r: "year_search cs = None" by (auto split: if_splits)
    show "\<forall>i. i + 6 \<le> length (c # cs) \<longrightarrow> \<not> list_all is_digit (take 6 (drop i (c # cs)))"
    proof (intro allI impI)
      fix i assume i: "i + 6 \<le> length (c # cs)"
      show "\<not> list_all is_digit (take 6 (drop i (c # cs)))"
      proof (cases i)
        case 0
        then show ?thesis using n0 i by simp
      next
        case (Suc j)
        then show ?thesis using r Cons.IH i by simp
      qed
    qed
  next
    assume h: "\<forall>i. i + 6 \<le> length (c # cs) \<longrightarrow> \<not> list_all is_digit (take 6 (drop i (c # cs)))"
    from h[rule_format, of 0] have n0: "\<not> (6 \<le> length (c # cs) \<and> list_all is_digit (take 6 (c # cs)))"
      by auto
    have "\<forall>i. i + 6 \<le> length cs \<longrightarrow> \<not> list_all is_digit (take 6 (drop i cs))"
    proof (intro allI impI)
      fix i assume "i + 6 \<le> length cs"
      then show "\<not> list_all is_digit (take 6 (drop i cs))"
        using h[rule_format, of "Suc i"] by simp
    qed
    then have "year_search cs = None" using Cons.IH by simp
    then show "year_search (c # cs) = None" using n0 by simp
  qed
qed



lemma quarter_token_at_Cons: "quarter_token_at (c # cs) (Suc i) = quarter_token_at cs i"
  by (auto simp: quarter_token_at_def)


lemma quarter_search_first:
  "quarter_token_at f i \<Longrightarrow> (\<forall>j<i. \<not> quarter_token_at f j) \<Longrightarrow> quarter_search f = Some (f ! (i + 2))"
proof (induction f arbitrary: i rule: quarter_search.induct)
  case (1 a b c cs)
  show ?case
  proof (cases i)
    case 0
    then show ?thesis using 1(2) by (simp add: quarter_token_at_def)
  next
    case (Suc j)
    then have n0: "\<not> quarter_token_at (a # b # c # cs) 0" using 1(3) by simp
    then have F: "\<not> (a = CHR ''-'' \<and> (b = CHR ''q'' \<or> b = CHR ''Q'') \<and> is_digit c)"
      by (simp add: quarter_token_at_def)
    have q: "quarter_token_at (b # c # cs) j" using 1(2) Suc quarter_token_at_Cons by simp
    have "\<forall>k<j. \<not> quarter_token_at (b # c # cs) k"
    proof (intro allI impI)
      fix k assume "k < j"
      then have "\<not> quarter_token_at (a # b # c # cs) (Suc k)" using 1(3) Suc by simp
      then show "\<not> quarter_token_at (b # c # cs) k" using quarter_token_at_Cons by simp
    qed
    then have "quarter_search (b # c # cs) = Some ((b # c # cs) ! (j + 2))"
      using 1(1) F q by simp
    moreover have "quarter_search (a # b # c # cs) = quarter_search (b # c # cs)"
      using F by (simp only: quarter_search.simps if_False)
    ultimately show ?thesis using Suc by simp
  qed
qed (auto simp: quarter_token_at_def)


lemma year_search_None_iff: "year_search f = None \<longleftrightarrow> (\<forall>i. \<not> six_digits_at f i)"
  by (simp add: year_search_None_iff' six_digits_at_def)



lemma int_of_digits_single: "int_of_digits [d] = digit_val d"
  by (simp add: int_of_digits_def)



lemma extract_quarter:
  assumes "six_digits_at f i" and "quarter_token_at f k" and "\<forall>j<k. \<not> quarter_token_at f j"
  shows "snd (snd (extract_year_quarter_from_filename f)) = digit_val (f ! (k + 2))"
proof -
  have "year_search f \<noteq> None" using assms(1) year_search_None_iff by blast
  then obtain g1 g2 where y: "year_search f = Some (g1, g2)" by auto
  have q: "quarter_search f = Some (f ! (k + 2))"
    using quarter_search_first[OF assms(2,3)] .
  show ?thesis
    by (simp add: extract_year_quarter_from_filename_def y q int_of_digits_single)
qed


lemma last_filter_last: "xs \<noteq> [] \<Longrightarrow> P (last xs) \<Longrightarrow> last (filter P xs) = last xs"
  by (cases xs rule: rev_cases) auto

lemma hd_filter_index:
  "\<exists>x\<in>set xs. P x \<Longrightarrow>
     \<exists>i<length xs. hd (filter P xs) = xs ! i \<and> P (xs ! i) \<and> (\<forall>j<i. \<not> P (xs ! j))"
proof (induction xs)
  case Nil
  then show ?case by simp
next
  case (Cons x xs)
  show ?case
  proof (cases "P x")
    case True
    then have "hd (filter P (x # xs)) = (x # xs) ! 0 \<and> P ((x # xs) ! 0) \<and> (\<forall>j<0. \<not> P ((x # xs) ! j))"
      by simp
    then show ?thesis by blast
  next
    case False
    then have "\<exists>x\<in>set xs. P x" using Cons.prems by auto
    then obtain i where i: "i < length xs" "hd (filter P xs) = xs ! i" "P (xs ! i)" "\<forall>j<i. \<not> P (xs ! j)"
      using Cons.IH by blast
    have "\<forall>j<Suc i. \<not> P ((x # xs) ! j)"
    proof (intro allI impI)
      fix j assume "j < Suc i"
      then show "\<not> P ((x # xs) ! j)" using False i(4) by (cases j) auto
    qed
    then have "Suc i < length (x # xs) \<and> hd (filter P (x # xs)) = (x # xs) ! Suc i \<and> P ((x # xs) ! Suc i) \<and> (\<forall>j<Suc i. \<not> P ((x # xs) ! j))"
      using False i by simp
    then show ?thesis by blast
  qed
qed

lemma sorted_le_last: "sorted (map f zs) \<Longrightarrow> z \<in> set zs \<Longrightarrow> f z \<le> f (last zs)"
  by (induction zs) (auto split: if_splits)

lemma hd_sort_reverse:
  fixes f :: "'a \<Rightarrow> 'k::linorder"
  assumes "xs \<noteq> []"
  shows "\<exists>i<length xs. hd (sort_reverse f xs) = xs ! i \<and>
           (\<forall>j<length xs. f (xs ! j) \<le> f (xs ! i)) \<and> (\<forall>j<i. f (xs ! j) < f (xs ! i))"
proof -
  let ?zs = "sort_key f (rev xs)"
  have ne: "?zs \<noteq> []" using assms by (metis length_0_conv length_rev length_sort)
  let ?m = "f (last ?zs)"
  let ?P = "\<lambda>y. f y = ?m"
  have le: "\<And>x. x \<in> set xs \<Longrightarrow> f x \<le> ?m"
    using sorted_le_last[of f ?zs] by simp
  have "last ?zs = last (filter ?P ?zs)"
    using last_filter_last[OF ne, of ?P] by simp
  also have "\<dots> = last (filter ?P (rev xs))" by (simp only: sort_key_stable)
  also have "\<dots> = hd (filter ?P xs)" by (simp add: rev_filter[symmetric] last_rev)
  finally have h: "hd (sort_reverse f xs) = hd (filter ?P xs)"
    by (simp add: sort_reverse_def hd_rev)
  have "last ?zs \<in> set ?zs" using ne by (rule last_in_set)
  moreover have "set ?zs = set xs" by simp
  ultimately have "last ?zs \<in> set xs" by blast
  then have "\<exists>x\<in>set xs. ?P x" by blast
  from hd_filter_index[OF this] obtain i where
    i: "i < length xs" "hd (filter ?P xs) = xs ! i" "?P (xs ! i)" "\<forall>j<i. \<not> ?P (xs ! j)" by blast
  have a: "\<forall>j<length xs. f (xs ! j) \<le> f (xs ! i)"
    using le i(3) by simp
  have b: "\<forall>j<i. f (xs ! j) < f (xs ! i)"
  proof (intro allI impI)
    fix j assume j: "j < i"
    then have "f (xs ! j) \<le> f (xs ! i)" using a i(1) by simp
    moreover have "f (xs ! j) \<noteq> f (xs ! i)" using i(3,4) j by simp
    ultimately show "f (xs ! j) < f (xs ! i)" by simp
  qed
  show ?thesis using h i(1,2) a b by auto
qed

lemmas extract_eval = extract_year_quarter_from_filename_def is_digit_def digit_val_def
  int_of_digits_def month_map_def lower_def lower_char_def startswith_def




lemma All_less_numeral: "(\<forall>j<numeral n. P j) \<longleftrightarrow> (\<forall>j<pred_numeral n. P j) \<and> P (pred_numeral n)"
  by (auto simp: numeral_eq_Suc All_less_Suc)



text \<open>
  C6. With no candidate the resolver returns \<open>None\<close>; otherwise it returns a candidate whose
  \<open>(year start, year end, sub-period)\<close> tuple, parsed from the base name of its path, is
  greatest in the lexicographic order, and every candidate found before it has a strictly
  smaller tuple (the first found wins a tie).
\<close>

theorem find_latest_file_spec:
  "(all_files glob pat pre sub = [] \<longrightarrow> find_latest_file glob pat pre sub = None) \<and>
   (all_files glob pat pre sub \<noteq> [] \<longrightarrow>
      (\<exists>i<length (all_files glob pat pre sub).
          find_latest_file glob pat pre sub = Some (all_files glob pat pre sub ! i) \<and>
          (\<forall>j<length (all_files glob pat pre sub).
              extract_year_quarter_from_filename (basename (all_files glob pat pre sub ! j))
                \<le> extract_year_quarter_from_filename (basename (all_files glob pat pre sub ! i))) \<and>
          (\<forall>j<i. extract_year_quarter_from_filename (basename (all_files glob pat pre sub ! j))
                < extract_year_quarter_from_filename (basename (all_files glob pat pre sub ! i)))))"
proof (intro conjI impI)
  assume "all_files glob pat pre sub = []"
  then show "find_latest_file glob pat pre sub = None"
    by (simp add: find_latest_file_def)
next
  let ?fs = "all_files glob pat pre sub"
  let ?key = "\<lambda>p. extract_year_quarter_from_filename (basename p)"
  assume ne: "?fs \<noteq> []"
  have k: "file_sort_key = ?key" by (rule ext) (simp add: file_sort_key_def)
  have r: "find_latest_file glob pat pre sub = Some (hd (sort_reverse ?key ?fs))"
    using ne by (simp add: find_latest_file_def Let_def k)
  from hd_sort_reverse[OF ne, of ?key]
  show "\<exists>i<length ?fs. find_latest_file glob pat pre sub = Some (?fs ! i) \<and>
          (\<forall>j<length ?fs. ?key (?fs ! j) \<le> ?key (?fs ! i)) \<and>
          (\<forall>j<i. ?key (?fs ! j) < ?key (?fs ! i))"
    unfolding r by auto
qed

lemma all_files_example:
  "all_files glob_example ''app-underlying-data-vacancies-*.csv'' ''apprenticeships'' ''supporting-files'' =
     [''app-underlying-data-vacancies-202324-q4.csv'',
      ''apprenticeships_2024-25/supporting-files/app-underlying-data-vacancies-202425-q1.csv'',
      ''apprenticeships_2024-25/supporting-files/app-underlying-data-vacancies-202425-q2.csv'',
      ''apprenticeships_2023-24/supporting-files/app-underlying-data-vacancies-202425-q2.csv'']"
  by (simp add: all_files_def glob_example_def path_join_def path_join2_def startswith_def endswith_def)

lemma file_sort_key_examples:
  "extract_year_quarter_from_filename (basename ''app-underlying-data-vacancies-202324-q4.csv'') = (2023, 24, 4)"
  "extract_year_quarter_from_filename (basename
     ''apprenticeships_2024-25/supporting-files/app-underlying-data-vacancies-202425-q1.csv'') = (2024, 25, 1)"
  "extract_year_quarter_from_filename (basename
     ''apprenticeships_2024-25/supporting-files/app-underlying-data-vacancies-202425-q2.csv'') = (2024, 25, 2)"
  "extract_year_quarter_from_filename (basename
     ''apprenticeships_2023-24/supporting-files/app-underlying-data-vacancies-202425-q2.csv'') = (2024, 25, 2)"
  by (simp_all add: basename_def extract_eval)

theorem find_latest_file_witness:
  "all_files glob_example ''app-underlying-data-vacancies-*.csv'' ''apprenticeships'' ''supporting-files'' =
     [''app-underlying-data-vacancies-202324-q4.csv'',
      ''apprenticeships_2024-25/supporting-files/app-underlying-data-vacancies-202425-q1.csv'',
      ''apprenticeships_2024-25/supporting-files/app-underlying-data-vacancies-202425-q2.csv'',
      ''apprenticeships_2023-24/supporting-files/app-underlying-data-vacancies-202425-q2.csv''] \<and>
   find_latest_file glob_example ''app-underlying-data-vacancies-*.csv'' ''apprenticeships'' ''supporting-files'' =
     Some ''apprenticeships_2024-25/supporting-files/app-underlying-data-vacancies-202425-q2.csv''"
proof -
  let ?fs = "all_files glob_example ''app-underlying-data-vacancies-*.csv'' ''apprenticeships'' ''supporting-files''"
  let ?key = "\<lambda>p. extract_year_quarter_from_filename (basename p)"
  have ne: "?fs \<noteq> []" by (simp add: all_files_example)
  from find_latest_file_spec[of glob_example "''app-underlying-data-vacancies-*.csv''" "''apprenticeships''" "''supporting-files''"] ne
  obtain i where i: "i < length ?fs"
    and r: "find_latest_file glob_example ''app-underlying-data-vacancies-*.csv'' ''apprenticeships'' ''supporting-files'' = Some (?fs ! i)"
    and mx: "\<forall>j<length ?fs. ?key (?fs ! j) \<le> ?key (?fs ! i)"
    and fst: "\<forall>j<i. ?key (?fs ! j) < ?key (?fs ! i)"
    by blast
  have l: "length ?fs = 4" by (simp add: all_files_example)
  from mx l have m2: "?key (?fs ! 2) \<le> ?key (?fs ! i)" by simp
  from i l consider "i = 0" | "i = 1" | "i = 2" | "i = 3" by linarith
  then have "i = 2"
  proof cases
    case 1
    with m2 show ?thesis by (simp add: all_files_example file_sort_key_examples)
  next
    case 2
    with m2 show ?thesis by (simp add: all_files_example file_sort_key_examples)
  next
    case 3
    then show ?thesis .
  next
    case 4
    with fst have "?key (?fs ! 2) < ?key (?fs ! 3)" by simp
    then show ?thesis by (simp add: all_files_example file_sort_key_examples)
  qed
  with r have "find_latest_file glob_example ''app-underlying-data-vacancies-*.csv'' ''apprenticeships'' ''supporting-files'' = Some (?fs ! 2)"
    by simp
  then show ?thesis by (simp add: all_files_example)
qed

lemma hd_sort_reverse_in_set: "xs \<noteq> [] \<Longrightarrow> hd (sort_reverse f xs) \<in> set xs"
  using hd_sort_reverse[of xs f] by (metis nth_mem)

text \<open>
  C10. The archive fallback looks in the versioned folders only: when none of them holds a
  matching archive it returns \<open>None\<close> and extracts nothing, every archive it extracts from
  comes from a versioned folder's listing, and the plain-file resolver on the same directory
  tree does return a file whenever the working directory holds a match.
\<close>

theorem extract_from_zip_ignores_working_directory:
  "((\<forall>folder\<in>set (glob (pre @ ''_*'')). glob (path_join folder sub pat) = []) \<longrightarrow>
      extract_from_zip_if_needed glob namelist pat pre sub = Inr (None, [])) \<and>
   (\<forall>r effs z m d. extract_from_zip_if_needed glob namelist pat pre sub = Inr (r, effs) \<and>
        ZipExtract z m d \<in> set effs \<longrightarrow>
        (\<exists>folder\<in>set (glob (pre @ ''_*'')). z \<in> set (glob (path_join folder sub pat)))) \<and>
   (glob pat \<noteq> [] \<longrightarrow> find_latest_file glob pat pre sub \<noteq> None)"
proof (intro conjI impI allI)
  assume "\<forall>folder\<in>set (glob (pre @ ''_*'')). glob (path_join folder sub pat) = []"
  then have "all_zip_files glob pat pre sub = []"
    by (simp add: all_zip_files_def)
  then show "extract_from_zip_if_needed glob namelist pat pre sub = Inr (None, [])"
    by (simp add: extract_from_zip_if_needed_def)
next
  fix r effs z m d
  let ?zs = "all_zip_files glob pat pre sub"
  assume a: "extract_from_zip_if_needed glob namelist pat pre sub = Inr (r, effs) \<and> ZipExtract z m d \<in> set effs"
  then have ne: "?zs \<noteq> []"
    by (auto simp: extract_from_zip_if_needed_def)
  from a ne have "z = hd (sort_reverse file_sort_key ?zs)"
    by (auto simp: extract_from_zip_if_needed_def Let_def split: option.splits if_splits)
  then have "z \<in> set ?zs" using hd_sort_reverse_in_set[OF ne] by simp
  then show "\<exists>folder\<in>set (glob (pre @ ''_*'')). z \<in> set (glob (path_join folder sub pat))"
    by (auto simp: all_zip_files_def)
next
  assume "glob pat \<noteq> []"
  then have "all_files glob pat pre sub \<noteq> []" by (simp add: all_files_def)
  then show "find_latest_file glob pat pre sub \<noteq> None"
    by (simp add: find_latest_file_def Let_def)
qed


theorem extract_from_zip_ignores_working_directory_witness:
  "glob_cwd_only ''app-underlying-data-starts-*.zip'' = [''app-underlying-data-starts-202425-q1.zip''] \<and>
   extract_from_zip_if_needed glob_cwd_only (\<lambda>z. Some [''data.csv''])
      ''app-underlying-data-starts-*.zip'' ''apprenticeships'' ''supporting-files'' = Inr (None, []) \<and>
   find_latest_file glob_cwd_only ''app-underlying-data-starts-*.zip'' ''apprenticeships'' ''supporting-files'' \<noteq> None"
proof -
  have g: "glob_cwd_only ''app-underlying-data-starts-*.zip'' = [''app-underlying-data-starts-202425-q1.zip'']"
    by (simp add: glob_cwd_only_def)
  have h: "\<forall>folder\<in>set (glob_cwd_only (''apprenticeships'' @ ''_*'')).
      glob_cwd_only (path_join folder ''supporting-files'' ''app-underlying-data-starts-*.zip'') = []"
    by (simp add: glob_cwd_only_def path_join_def path_join2_def startswith_def endswith_def)
  have ne: "glob_cwd_only ''app-underlying-data-starts-*.zip'' \<noteq> []" using g by simp
  show ?thesis
    using extract_from_zip_ignores_working_directory[of glob_cwd_only "''apprenticeships''"
        "''supporting-files''" "''app-underlying-data-starts-*.zip''" "\<lambda>z. Some [''data.csv'']"] g h ne
    by blast
qed

section \<open>Properties of the aggregation\<close>

lemma dict_get_update: "dict_get (AList.update k v al) k' d = (if k' = k then v else dict_get al k' d)"
  by (simp add: dict_get_def update_conv')

lemma dict_get_absent: "k \<notin> set (map fst al) \<Longrightarrow> dict_get al k d = d"
  by (simp add: dict_get_def map_of_eq_None_iff[THEN iffD2])

lemma aggregate_step_simp:
  "aggregate_step mry agg r =
     AList.update (provider_clean r)
       (AList.update (year_key_of mry r)
          (dict_get (dict_get agg (provider_clean r) []) (year_key_of mry r) 0 + starts r)
          (dict_get agg (provider_clean r) []))
       agg"
proof -
  let ?p = "provider_clean r" and ?k = "year_key_of mry r"
  let ?agg1 = "if ?p \<notin> set (map fst agg) then AList.update ?p [] agg else agg"
  have g1: "dict_get ?agg1 ?p [] = dict_get agg ?p []"
    by (simp add: dict_get_update dict_get_absent)
  let ?pd = "dict_get agg ?p []"
  let ?pd1 = "if ?k \<notin> set (map fst ?pd) then AList.update ?k 0 ?pd else ?pd"
  have g2: "dict_get ?pd1 ?k 0 = dict_get ?pd ?k 0"
    by (simp add: dict_get_update dict_get_absent)
  have u2: "AList.update ?k v ?pd1 = AList.update ?k v ?pd" for v
    by simp
  have u1: "AList.update ?p v ?agg1 = AList.update ?p v agg" for v
    by simp
  show ?thesis
    unfolding aggregate_step_def Let_def g1 g2 u2 u1 ..
qed

lemma matrix_get_step:
  "matrix_get (aggregate_step mry agg r) p k =
     matrix_get agg p k + (if provider_clean r = p \<and> year_key_of mry r = k then starts r else 0)"
  by (simp add: aggregate_step_simp matrix_get_def dict_get_update)

lemma matrix_get_foldl:
  "matrix_get (foldl (aggregate_step mry) agg rs) p k =
     matrix_get agg p k +
       (\<Sum>r\<leftarrow>rs. if provider_clean r = p \<and> year_key_of mry r = k then starts r else 0)"
  by (induction rs arbitrary: agg) (simp_all add: matrix_get_step add.assoc)

lemma matrix_get_aggregate:
  "matrix_get (aggregate_starts_by_provider_year rs mry) p k =
     (\<Sum>r\<leftarrow>rs. if provider_clean r = p \<and> year_key_of mry r = k then starts r else 0)"
proof -
  have "matrix_get [] p k = 0" by (simp add: matrix_get_def dict_get_def)
  then show ?thesis
    by (simp add: aggregate_starts_by_provider_year_def matrix_get_foldl)
qed


lemma keys_update: "fst ` set (AList.update k v al) = insert k (fst ` set al)"
  by (induction al) auto

lemma has_key_step:
  "has_key (aggregate_step mry agg r) p k \<longleftrightarrow>
     has_key agg p k \<or> (provider_clean r = p \<and> year_key_of mry r = k)"
  by (auto simp: aggregate_step_simp has_key_def dict_get_update keys_update)

lemma has_key_foldl:
  "has_key (foldl (aggregate_step mry) agg rs) p k \<longleftrightarrow>
     has_key agg p k \<or> (\<exists>r\<in>set rs. provider_clean r = p \<and> year_key_of mry r = k)"
  by (induction rs arbitrary: agg) (auto simp: has_key_step)

lemma has_key_aggregate:
  "has_key (aggregate_starts_by_provider_year rs mry) p k \<longleftrightarrow>
     (\<exists>r\<in>set rs. provider_clean r = p \<and> year_key_of mry r = k)"
proof -
  have "\<not> has_key [] p k" by (simp add: has_key_def dict_get_def)
  then show ?thesis
    by (simp add: aggregate_starts_by_provider_year_def has_key_foldl)
qed

lemma providers_step:
  "fst ` set (aggregate_step mry agg r) = insert (provider_clean r) (fst ` set agg)"
  by (simp add: aggregate_step_simp keys_update)

lemma providers_foldl:
  "fst ` set (foldl (aggregate_step mry) agg rs) = fst ` set agg \<union> provider_clean ` set rs"
  by (induction rs arbitrary: agg) (simp_all add: providers_step)

lemma providers_aggregate:
  "fst ` set (aggregate_starts_by_provider_year rs mry) = provider_clean ` set rs"
  by (simp add: aggregate_starts_by_provider_year_def providers_foldl)

lemma distinct_step: "distinct (map fst agg) \<Longrightarrow> distinct (map fst (aggregate_step mry agg r))"
  by (simp add: aggregate_step_simp distinct_update)

lemma distinct_foldl:
  "distinct (map fst agg) \<Longrightarrow> distinct (map fst (foldl (aggregate_step mry) agg rs))"
  by (induction rs arbitrary: agg) (simp_all add: distinct_step)

lemma distinct_aggregate: "distinct (map fst (aggregate_starts_by_provider_year rs mry))"
  by (simp add: aggregate_starts_by_provider_year_def distinct_foldl)

lemma dict_get_mem: "distinct (map fst al) \<Longrightarrow> (k, v) \<in> set al \<Longrightarrow> dict_get al k d = v"
  by (simp add: dict_get_def)

lemma all_year_keys_set:
  "distinct (map fst agg) \<Longrightarrow> set (all_year_keys agg) = {k. \<exists>p. has_key agg p k}"
proof (intro set_eqI iffI)
  fix k assume d: "distinct (map fst agg)" and "k \<in> set (all_year_keys agg)"
  then obtain p pd where m: "(p, pd) \<in> set agg" and k: "k \<in> set (map fst pd)"
    by (auto simp: all_year_keys_def)
  then have "dict_get agg p [] = pd" using dict_get_mem[OF d m] by simp
  then have "has_key agg p k" using k by (simp add: has_key_def)
  then show "k \<in> {k. \<exists>p. has_key agg p k}" by blast
next
  fix k assume d: "distinct (map fst agg)" and "k \<in> {k. \<exists>p. has_key agg p k}"
  then obtain p where h: "k \<in> set (map fst (dict_get agg p []))" by (auto simp: has_key_def)
  then have "dict_get agg p [] \<noteq> []" by auto
  then obtain pd where "map_of agg p = Some pd" and "dict_get agg p [] = pd"
    by (cases "map_of agg p") (auto simp: dict_get_def)
  then have "(p, pd) \<in> set agg" and "k \<in> set (map fst pd)"
    using h by (auto dest: map_of_SomeD)
  then show "k \<in> set (all_year_keys agg)"
    by (force simp: all_year_keys_def)
qed

lemma all_year_keys_aggregate:
  "set (all_year_keys (aggregate_starts_by_provider_year rs mry)) = year_key_of mry ` set rs"
  by (auto simp: all_year_keys_set[OF distinct_aggregate] has_key_aggregate)

lemma distinct_all_year_keys: "distinct (all_year_keys agg)"
  by (simp add: all_year_keys_def)

section \<open>Properties of the period keys\<close>

lemma digits_below_ten: "n < 10 \<Longrightarrow> n \<in> set [0, 1, 2, 3, 4, 5, 6, 7, 8, 9 :: nat]"
proof -
  assume "n < 10"
  then have "n \<in> set [0..<10]" by simp
  moreover have "[0..<10] = [0, 1, 2, 3, 4, 5, 6, 7, 8, 9 :: nat]" by (simp add: upt_rec)
  ultimately show ?thesis by simp
qed

lemma digit_char_table:
  "\<forall>n\<in>set [0, 1, 2, 3, 4, 5, 6, 7, 8, 9 :: nat]. is_digit (digit_char n) \<and> digit_val (digit_char n) = int n"
  by (simp add: is_digit_def digit_char_def digit_val_def)

lemma digit_char_is_digit: "n < 10 \<Longrightarrow> is_digit (digit_char n)"
  using digits_below_ten digit_char_table by blast

lemma digit_val_digit_char: "n < 10 \<Longrightarrow> digit_val (digit_char n) = int n"
  using digits_below_ten digit_char_table by blast

lemma string_of_nat_digits: "list_all is_digit (string_of_nat n)"
proof (induction n rule: string_of_nat.induct)
  case (1 n)
  show ?case
  proof (cases "n < 10")
    case True
    then show ?thesis by (subst string_of_nat.simps) (simp add: digit_char_is_digit)
  next
    case False
    then have "list_all is_digit (string_of_nat (n div 10))" using 1 by simp
    moreover have "is_digit (digit_char (n mod 10))" by (simp add: digit_char_is_digit)
    ultimately show ?thesis using False by (subst string_of_nat.simps) simp
  qed
qed

lemma string_of_nat_nonempty: "string_of_nat n \<noteq> []"
  by (subst string_of_nat.simps) simp

lemma foldl_digits_append:
  "foldl (\<lambda>a c. 10 * a + digit_val c) acc (xs @ [c]) = 10 * foldl (\<lambda>a c. 10 * a + digit_val c) acc xs + digit_val c"
  by simp

lemma int_of_string_of_nat: "foldl (\<lambda>a c. 10 * a + digit_val c) 0 (string_of_nat n) = int n"
proof (induction n rule: string_of_nat.induct)
  case (1 n)
  show ?case
  proof (cases "n < 10")
    case True
    then show ?thesis by (subst string_of_nat.simps) (simp add: digit_val_digit_char)
  next
    case False
    then have ih: "foldl (\<lambda>a c. 10 * a + digit_val c) 0 (string_of_nat (n div 10)) = int (n div 10)"
      using 1 by simp
    have "foldl (\<lambda>a c. 10 * a + digit_val c) 0 (string_of_nat n) =
        10 * int (n div 10) + int (n mod 10)"
      using False ih by (subst string_of_nat.simps) (simp add: digit_val_digit_char)
    also have "\<dots> = int n" by (simp add: zdiv_int zmod_int)
    finally show ?thesis .
  qed
qed

lemma parse_digits_all:
  "list_all is_digit ds \<Longrightarrow> parse_digits acc ds = Some (foldl (\<lambda>a c. 10 * a + digit_val c) acc ds)"
  by (induction acc ds rule: parse_digits.induct) simp_all

lemma is_digit_not_space: "is_digit c \<Longrightarrow> \<not> is_space c"
  by (auto simp: is_digit_def is_space_def)

lemma strip_digits: "list_all is_digit ds \<Longrightarrow> strip ds = ds"
proof (cases ds rule: rev_cases)
  case Nil
  then show ?thesis by (simp add: strip_def)
next
  case (snoc ys y)
  assume a: "list_all is_digit ds"
  then have y: "\<not> is_space y" using snoc by (simp add: is_digit_not_space)
  have "ds \<noteq> []" using snoc by simp
  then obtain x xs where c: "ds = x # xs" by (cases ds) auto
  then have x: "\<not> is_space x" using a by (simp add: is_digit_not_space)
  have "dropWhile is_space ds = ds" using c x by simp
  moreover have "dropWhile is_space (rev ds) = rev ds" using snoc y by simp
  ultimately show ?thesis by (simp add: strip_def)
qed

lemma py_int_digits:
  assumes "list_all is_digit ds" "ds \<noteq> []"
  shows "py_int ds = Some (foldl (\<lambda>a c. 10 * a + digit_val c) 0 ds)"
proof -
  obtain c cs where c: "ds = c # cs" using assms(2) by (cases ds) auto
  have d: "is_digit c" "list_all is_digit cs" using assms(1) c by simp_all
  have nm: "c \<noteq> CHR ''-''" "c \<noteq> CHR ''+''" using d(1) by (auto simp: is_digit_def)
  have st: "strip ds = c # cs" using strip_digits[OF assms(1)] c by simp
  show ?thesis
    unfolding py_int_def st Let_def
    using nm d by (simp add: startswith_def parse_digits_all c)
qed

lemma py_int_str_of_int: "0 \<le> q \<Longrightarrow> py_int (str_of_int q) = Some q"
  using py_int_digits[OF string_of_nat_digits string_of_nat_nonempty, of "nat q"]
  by (simp add: str_of_int_def int_of_string_of_nat)


lemma contains_Q_simps:
  "str_contains '' Q'' [] = False"
  "str_contains '' Q'' [a] = False"
  "str_contains '' Q'' (a # b # cs) \<longleftrightarrow> (a = CHR '' '' \<and> b = CHR ''Q'') \<or> str_contains '' Q'' (b # cs)"
  by (auto simp: startswith_def)

lemma split_Q_no_sep: "\<not> str_contains '' Q'' s \<Longrightarrow> split_Q acc s = [rev acc @ s]"
  by (induction acc s rule: split_Q.induct) (auto simp: startswith_def)

lemma split_Q_sep:
  "\<not> str_contains '' Q'' y \<Longrightarrow> split_Q acc (y @ '' Q'' @ rest) = (rev acc @ y) # split_Q [] rest"
proof (induction y arbitrary: acc)
  case Nil
  then show ?case by simp
next
  case (Cons a y)
  show ?case
  proof (cases y)
    case Nil
    have "a \<noteq> CHR '' '' \<or> CHR '' '' \<noteq> CHR ''Q''" by simp
    then have "split_Q acc (a # CHR '' '' # CHR ''Q'' # rest) = split_Q (a # acc) (CHR '' '' # CHR ''Q'' # rest)"
      by simp
    then show ?thesis using Nil by simp
  next
    case (Cons b y')
    from Cons.prems have n: "\<not> (a = CHR '' '' \<and> b = CHR ''Q'')" and r: "\<not> str_contains '' Q'' y"
      unfolding Cons by (auto simp: startswith_def)
    have "split_Q acc ((a # y) @ '' Q'' @ rest) = split_Q (a # acc) (y @ '' Q'' @ rest)"
      using n unfolding Cons by auto
    also have "\<dots> = (rev (a # acc) @ y) # split_Q [] rest" using Cons.IH[OF r] .
    finally show ?thesis by simp
  qed
qed

lemma digits_no_Q: "list_all is_digit ds \<Longrightarrow> \<not> str_contains '' Q'' ds"
proof (induction ds)
  case Nil
  then show ?case by simp
next
  case (Cons a ds)
  then have "a \<noteq> CHR '' ''" by (auto simp: is_digit_def)
  then show ?case using Cons by (cases ds) (auto simp: startswith_def)
qed

lemma sort_key_fn_plain: "\<not> str_contains '' Q'' k \<Longrightarrow> sort_key_fn k = Inr (k, 0)"
  by (simp add: sort_key_fn_def)

lemma sort_key_fn_refined:
  assumes "\<not> str_contains '' Q'' y" "0 \<le> q"
  shows "sort_key_fn (y @ '' Q'' @ str_of_int q) = Inr (y, q)"
proof -
  have c: "str_contains '' Q'' (y @ '' Q'' @ str_of_int q)"
    using str_contains_iff by blast
  have d: "list_all is_digit (str_of_int q)"
    using assms(2) by (simp add: str_of_int_def string_of_nat_digits)
  have "split_Q [] (y @ '' Q'' @ str_of_int q) = [y, str_of_int q]"
    using split_Q_sep[OF assms(1), of "[]" "str_of_int q"] split_Q_no_sep[OF digits_no_Q[OF d], of "[]"]
    by simp
  then show ?thesis
    using c py_int_str_of_int[OF assms(2)] by (simp add: sort_key_fn_def)
qed

section \<open>Properties of the column plan\<close>

lemma sorted_year_keys_Inr:
  assumes "sorted_year_keys so agg = Inr yks"
  shows "yks = sort_key sort_key_val (so (all_year_keys agg))"
    and "\<forall>k\<in>set (so (all_year_keys agg)). \<exists>v. sort_key_fn k = Inr v"
proof -
  from assms have n: "\<not> list_ex (\<lambda>k. isl (sort_key_fn k)) (so (all_year_keys agg))"
    and y: "yks = sort_key sort_key_val (so (all_year_keys agg))"
    by (auto simp: sorted_year_keys_def Let_def split: if_splits)
  show "yks = sort_key sort_key_val (so (all_year_keys agg))" by (rule y)
  show "\<forall>k\<in>set (so (all_year_keys agg)). \<exists>v. sort_key_fn k = Inr v"
  proof
    fix k assume "k \<in> set (so (all_year_keys agg))"
    then have "\<not> isl (sort_key_fn k)" using n by (auto simp: list_ex_iff)
    then show "\<exists>v. sort_key_fn k = Inr v" by (cases "sort_key_fn k") auto
  qed
qed

lemma sorted_year_keys_mset:
  assumes "sorted_year_keys so agg = Inr yks" and "mset (so (all_year_keys agg)) = mset (all_year_keys agg)"
  shows "mset yks = mset (all_year_keys agg)" and "distinct yks" and "set yks = set (all_year_keys agg)"
    and "sorted (map sort_key_val yks)"
proof -
  have y: "yks = sort_key sort_key_val (so (all_year_keys agg))"
    using sorted_year_keys_Inr(1)[OF assms(1)] .
  show m: "mset yks = mset (all_year_keys agg)" using y assms(2) by simp
  then show "distinct yks" using distinct_all_year_keys by (metis mset_eq_imp_distinct_iff)
  show "set yks = set (all_year_keys agg)" using m by (rule mset_eq_setD)
  show "sorted (map sort_key_val yks)" using y by simp
qed


lemma build_final_year_keys_eq:
  "build_final_year_keys mry qks acc keys =
     (if qks = [] \<and> (\<exists>k\<in>set keys. str_contains '' Q'' k) then Inl IndexError
      else Inr (acc @ concat (map (with_total mry qks) keys)))"
proof (induction keys arbitrary: acc)
  case Nil
  then show ?case by simp
next
  case (Cons k keys)
  show ?case
  proof (cases "str_contains '' Q'' k")
    case False
    then have w: "with_total mry qks k = [k]" by (simp add: with_total_def)
    show ?thesis using False w Cons.IH[of "acc @ [k]"] by simp
  next
    case True
    show ?thesis
    proof (cases qks)
      case Nil
      then show ?thesis using True by simp
    next
      case (Cons q0 qs)
      have w: "with_total mry qks k = (if k = q0 then [mry, k] else [k])"
        using True Cons by (simp add: with_total_def)
      show ?thesis
        using True Cons w Cons.IH[of "acc @ [mry, k]"] Cons.IH[of "acc @ [k]"]
        by auto
    qed
  qed
qed

lemma concat_with_total_none:
  "\<forall>k\<in>set keys. \<not> (str_contains '' Q'' k \<and> k = q0) \<Longrightarrow>
     concat (map (\<lambda>k. if str_contains '' Q'' k \<and> k = q0 then [mry, k] else [k]) keys) = keys"
  by (induction keys) auto

lemma build_final_no_quarterly:
  assumes "build_final_year_keys mry (quarterly_keys_of mry keys) [] keys = Inr final"
    and "quarterly_keys_of mry keys = []"
  shows "final = keys"
proof -
  from assms have n: "\<forall>k\<in>set keys. \<not> str_contains '' Q'' k"
    by (auto simp: build_final_year_keys_eq split: if_splits)
  then have "concat (map (with_total mry []) keys) = keys"
    by (induction keys) (auto simp: with_total_def)
  then show ?thesis using assms by (simp add: build_final_year_keys_eq split: if_splits)
qed

lemma filter_hd_split:
  "filter P xs \<noteq> [] \<Longrightarrow>
     \<exists>pre post. xs = pre @ hd (filter P xs) # post \<and> (\<forall>x\<in>set pre. \<not> P x)"
proof (induction xs)
  case Nil
  then show ?case by simp
next
  case (Cons x xs)
  show ?case
  proof (cases "P x")
    case True
    then have "x # xs = [] @ hd (filter P (x # xs)) # xs \<and> (\<forall>x\<in>set []. \<not> P x)" by simp
    then show ?thesis by blast
  next
    case False
    then have "filter P xs \<noteq> []" using Cons.prems by simp
    then obtain pre post where "xs = pre @ hd (filter P xs) # post" "\<forall>x\<in>set pre. \<not> P x"
      using Cons.IH by blast
    then have "x # xs = (x # pre) @ hd (filter P (x # xs)) # post \<and> (\<forall>y\<in>set (x # pre). \<not> P y)"
      using False by simp
    then show ?thesis by blast
  qed
qed

lemma build_final_with_quarterly:
  assumes "build_final_year_keys mry (quarterly_keys_of mry keys) [] keys = Inr final"
    and "quarterly_keys_of mry keys \<noteq> []" and "distinct keys"
  shows "\<exists>pre post. keys = pre @ hd (quarterly_keys_of mry keys) # post \<and>
           final = pre @ mry # hd (quarterly_keys_of mry keys) # post \<and>
           (\<forall>k\<in>set pre. \<not> (startswith k mry \<and> str_contains '' Q'' k))"
proof -
  let ?P = "\<lambda>key. startswith key mry \<and> str_contains '' Q'' key"
  let ?q0 = "hd (quarterly_keys_of mry keys)"
  have ne: "filter ?P keys \<noteq> []" using assms(2) by (simp add: quarterly_keys_of_def)
  from filter_hd_split[OF ne] obtain pre post where
    k: "keys = pre @ hd (filter ?P keys) # post" and p: "\<forall>x\<in>set pre. \<not> ?P x" by blast
  have q0: "?q0 = hd (filter ?P keys)" by (simp add: quarterly_keys_of_def)
  have "hd (filter ?P keys) \<in> set (filter ?P keys)" using ne by (rule hd_in_set)
  then have "?P (hd (filter ?P keys))" by simp
  then have cq: "str_contains '' Q'' ?q0" using q0 by simp
  have k': "keys = pre @ ?q0 # post" using k q0 by simp
  have d1: "?q0 \<notin> set pre" and d2: "?q0 \<notin> set post"
    using assms(3) by (subst (asm) k', simp)+
  have f: "final = concat (map (with_total mry (quarterly_keys_of mry keys)) keys)"
    using assms(1,2) by (simp add: build_final_year_keys_eq)
  have a: "concat (map (with_total mry (quarterly_keys_of mry keys)) pre) = pre"
    using d1 by (induction pre) (auto simp: with_total_def)
  have b: "concat (map (with_total mry (quarterly_keys_of mry keys)) post) = post"
    using d2 by (induction post) (auto simp: with_total_def)
  have c: "with_total mry (quarterly_keys_of mry keys) ?q0 = [mry, ?q0]"
    using cq by (simp add: with_total_def)
  have "final = pre @ mry # ?q0 # post"
    by (subst f, subst k', simp add: a b c)
  then show ?thesis using k' p by blast
qed

section \<open>Properties of the rows and totals\<close>

lemma mset_sort_reverse: "mset (sort_reverse f xs) = mset xs"
  by (simp add: sort_reverse_def)

lemma sum_list_mset_cong: "mset xs = mset ys \<Longrightarrow> (\<Sum>x\<leftarrow>xs. g x) = (\<Sum>x\<leftarrow>ys. (g x :: int))"
proof -
  assume "mset xs = mset ys"
  then have "mset (map g xs) = mset (map g ys)" by (metis mset_map)
  then show ?thesis by (metis sum_mset_sum_list)
qed

lemma sum_list_sort_reverse: "(\<Sum>x\<leftarrow>sort_reverse f xs. g x) = (\<Sum>x\<leftarrow>xs. (g x :: int))"
  by (rule sum_list_mset_cong) (rule mset_sort_reverse)

lemma sum_list_partition:
  "(\<Sum>x\<leftarrow>xs. (g x :: int)) = (\<Sum>x\<leftarrow>filter P xs. g x) + (\<Sum>x\<leftarrow>filter (\<lambda>x. \<not> P x) xs. g x)"
  by (induction xs) auto

lemma dict_get_foldl_update:
  "dict_get (foldl (\<lambda>d k. AList.update k (f k) d) d0 ks) k dflt =
     (if k \<in> set ks then f k else dict_get d0 k dflt)"
  by (induction ks arbitrary: d0 rule: rev_induct) (auto simp: dict_get_update)

lemma totals_dict_get:
  "k \<in> set yks \<Longrightarrow> dict_get (totals_dict mry qks ps yks) k 0 = column_total mry qks ps k"
  by (simp add: totals_dict_def dict_get_foldl_update)

lemma sum_list_concat_swap:
  "sum_list (concat (map (\<lambda>q. map (\<lambda>x. f x q) xs) qs)) = (\<Sum>x\<leftarrow>xs. \<Sum>q\<leftarrow>qs. (f x q :: int))"
proof (induction qs)
  case Nil
  then show ?case by simp
next
  case (Cons q qs)
  then show ?case by (simp add: sum_list_addf)
qed

lemma column_total_eq:
  "column_total mry qks ps k = (\<Sum>x\<leftarrow>ps. row_value mry qks (snd x) k)"
proof (cases "k = mry")
  case True
  have "sum_list (concat (map (\<lambda>q_key. map (\<lambda>(p, provider_data). dict_get provider_data q_key 0) ps) qks))
      = sum_list (concat (map (\<lambda>q. map (\<lambda>x. dict_get (snd x) q 0) ps) qks))"
    by (simp add: case_prod_unfold)
  also have "\<dots> = (\<Sum>x\<leftarrow>ps. \<Sum>q\<leftarrow>qks. dict_get (snd x) q 0)"
    by (rule sum_list_concat_swap)
  finally show ?thesis using True by (simp add: column_total_def row_value_def)
next
  case False
  then show ?thesis by (simp add: column_total_def row_value_def case_prod_unfold)
qed

lemma starts_table_rows:
  "starts_table mry qks yks agg min_starts title =
     (''Provider'' # map header_of yks,
      (''**Total**'', map (\<lambda>k. Bold (column_total mry qks agg k)) yks) #
        map (\<lambda>x. (fst x, map Num (row_values mry qks yks (snd x)))) (major_providers_of mry min_starts agg) @
        (if other_providers_of mry min_starts agg \<noteq> []
         then [(''All other providers'',
                map (\<lambda>k. Num (column_total mry qks (other_providers_of mry min_starts agg) k)) yks)]
         else []),
      title)"
  by (simp add: starts_table_def Let_def totals_dict_get case_prod_unfold cong: map_cong)

lemma column_sum_append: "column_sum (xs @ ys) i = column_sum xs i + column_sum ys i"
  by (simp add: column_sum_def)

lemma column_sum_provider_rows:
  "i < length yks \<Longrightarrow>
   column_sum (map (\<lambda>x. (f x, map Num (row_values mry qks yks (snd x)))) ps) i =
     column_total mry qks ps (yks ! i)"
  by (simp add: column_sum_def column_total_eq row_values_def cell_value_def comp_def)

lemma column_sum_pooled_row:
  "i < length yks \<Longrightarrow>
   column_sum (if ps \<noteq> [] then [(l, map (\<lambda>k. Num (column_total mry qks ps k)) yks)] else []) i =
     column_total mry qks ps (yks ! i)"
  by (simp add: column_sum_def cell_value_def column_total_eq)

lemma column_total_split:
  "column_total mry qks agg k =
     column_total mry qks (major_providers_of mry min_starts agg) k +
     column_total mry qks (other_providers_of mry min_starts agg) k"
proof -
  let ?P = "\<lambda>(p, year_data). recent_starts mry year_data \<ge> min_starts \<or> p \<in> set ALWAYS_SHOW_PROVIDERS"
  have o: "other_providers_of mry min_starts agg = filter (\<lambda>x. \<not> ?P x) agg"
    by (simp add: other_providers_of_def case_prod_unfold)
  show ?thesis
    unfolding column_total_eq o major_providers_of_def sum_list_sort_reverse
    by (rule sum_list_partition)
qed

lemma starts_table_total:
  assumes "starts_table mry qks yks agg min_starts title = (headers, rows, title')"
  shows "rows \<noteq> [] \<and> fst (hd rows) = ''**Total**'' \<and> length headers = Suc (length yks) \<and>
         (\<forall>i<length yks. cell_value (snd (hd rows) ! i) = column_sum (tl rows) i)"
proof -
  let ?maj = "major_providers_of mry min_starts agg"
  let ?oth = "other_providers_of mry min_starts agg"
  let ?rest = "map (\<lambda>x. (fst x, map Num (row_values mry qks yks (snd x)))) ?maj @
        (if ?oth \<noteq> []
         then [(''All other providers'', map (\<lambda>k. Num (column_total mry qks ?oth k)) yks)]
         else [])"
  from assms have h: "headers = ''Provider'' # map header_of yks"
    and r: "rows = (''**Total**'', map (\<lambda>k. Bold (column_total mry qks agg k)) yks) # ?rest"
    unfolding starts_table_rows by simp_all
  have "\<forall>i<length yks. cell_value (snd (hd rows) ! i) = column_sum (tl rows) i"
  proof (intro allI impI)
    fix i assume i: "i < length yks"
    have "cell_value (snd (hd rows) ! i) = column_total mry qks agg (yks ! i)"
      using i r by (simp add: cell_value_def)
    also have "\<dots> = column_total mry qks ?maj (yks ! i) + column_total mry qks ?oth (yks ! i)"
      by (rule column_total_split)
    also have "\<dots> = column_sum ?rest i"
      unfolding column_sum_append column_sum_provider_rows[OF i] column_sum_pooled_row[OF i] ..
    finally show "cell_value (snd (hd rows) ! i) = column_sum (tl rows) i" using r by simp
  qed
  then show ?thesis using h r by simp
qed

section \<open>Properties of the London table\<close>

lemma delete_filter: "AList.delete k al = filter (\<lambda>x. fst x \<noteq> k) al"
  by (induction al) auto

lemma dict_get_filter: "P k \<Longrightarrow> dict_get (filter (\<lambda>x. P (fst x)) al) k d = dict_get al k d"
  by (induction al) (auto simp: dict_get_def)

lemma pop_rogue_eq:
  "distinct names \<Longrightarrow>
   pop_rogue names rog agg =
     (rog @ map (\<lambda>n. (n, dict_get agg n [])) (filter (\<lambda>n. n \<in> fst ` set agg) names),
      filter (\<lambda>x. fst x \<notin> set names) agg)"
proof (induction names arbitrary: rog agg)
  case Nil
  then show ?case by simp
next
  case (Cons n names)
  then have d: "distinct names" and nn: "n \<notin> set names" by simp_all
  show ?case
  proof (cases "n \<in> fst ` set agg")
    case False
    then have "filter (\<lambda>x. fst x \<notin> set (n # names)) agg = filter (\<lambda>x. fst x \<notin> set names) agg"
      by (intro filter_cong) auto
    then show ?thesis using False Cons.IH[OF d] by simp
  next
    case True
    let ?agg' = "AList.delete n agg"
    have f: "filter (\<lambda>m. m \<in> fst ` set ?agg') names = filter (\<lambda>m. m \<in> fst ` set agg) names"
      using nn by (intro filter_cong) (auto simp: delete_filter)
    have g: "map (\<lambda>m. (m, dict_get ?agg' m [])) (filter (\<lambda>m. m \<in> fst ` set agg) names) =
             map (\<lambda>m. (m, dict_get agg m [])) (filter (\<lambda>m. m \<in> fst ` set agg) names)"
    proof (intro map_cong refl)
      fix m assume "m \<in> set (filter (\<lambda>m. m \<in> fst ` set agg) names)"
      then have "m \<noteq> n" using nn by auto
      then show "(m, dict_get ?agg' m []) = (m, dict_get agg m [])"
        using dict_get_filter[of "\<lambda>k. k \<noteq> n" m agg "[]"] by (simp add: delete_filter)
    qed
    have h: "filter (\<lambda>x. fst x \<notin> set names) ?agg' = filter (\<lambda>x. fst x \<notin> set (n # names)) agg"
      by (simp add: delete_filter conj_commute)
    show ?thesis using True Cons.IH[OF d, of "rog @ [(n, dict_get agg n [])]" ?agg'] f g h
      by simp
  qed
qed

lemma distinct_rogue_provider_names: "distinct rogue_provider_names"
  by (simp add: rogue_provider_names_def)

lemma fc_not_rogue: "fc_name \<notin> set rogue_provider_names"
  by (simp add: rogue_provider_names_def fc_name_def)

lemma london_table_rows:
  "london_table mry qks yks agg title =
     (let fc_data = dict_get agg fc_name [];
          agg1 = AList.delete fc_name agg;
          agg2 = filter (\<lambda>x. fst x \<notin> set rogue_provider_names) agg1;
          major = london_major_providers mry agg2;
          small = london_small_providers agg2
      in (''Provider'' # map header_of yks,
          (if fc_data \<noteq> [] then [(fc_name, map Num (row_values mry qks yks fc_data))] else []) @
          map (\<lambda>x. (fst x, map Num (row_values mry qks yks (snd x)))) major @
          (if small \<noteq> []
           then [(''All other providers'', map (\<lambda>k. Num (column_total mry qks small k)) yks)]
           else []) @
          [(''**Total**'', map (\<lambda>k. Bold (column_total mry qks ((fc_name, fc_data) # major @ small) k)) yks)] @
          map (\<lambda>x. (fst x @ '' (closed)'', map Num (row_values mry qks yks (snd x))))
            (map (\<lambda>n. (n, dict_get agg1 n [])) (filter (\<lambda>n. n \<in> fst ` set agg1) rogue_provider_names)),
          title))"
  by (simp add: london_table_def Let_def totals_dict_get case_prod_unfold
      pop_rogue_eq[OF distinct_rogue_provider_names] cong: map_cong)

lemma column_total_Cons:
  "column_total mry qks (x # ps) k = row_value mry qks (snd x) k + column_total mry qks ps k"
  by (simp add: column_total_eq)

lemma column_total_append:
  "column_total mry qks (ps @ qs) k = column_total mry qks ps k + column_total mry qks qs k"
  by (simp add: column_total_eq)

lemma row_value_empty: "row_value mry qks [] k = 0"
  by (simp add: row_value_def dict_get_def)

lemma column_sum_fc_row:
  "i < length yks \<Longrightarrow>
   column_sum (if fc_data \<noteq> [] then [(l, map Num (row_values mry qks yks fc_data))] else []) i =
     row_value mry qks fc_data (yks ! i)"
  by (simp add: column_sum_def cell_value_def row_values_def row_value_empty)

lemma london_table_total:
  assumes "london_table mry qks yks agg title = (headers, rows, title')"
  shows "\<exists>shown total closed.
           rows = shown @ total # closed \<and> fst total = ''**Total**'' \<and>
           length headers = Suc (length yks) \<and>
           map fst closed = map (\<lambda>n. n @ '' (closed)'')
             (filter (\<lambda>n. n \<in> fst ` set agg) rogue_provider_names) \<and>
           (\<forall>i<length yks. cell_value (snd total ! i) = column_sum shown i) \<and>
           london_table mry qks yks (filter (\<lambda>x. fst x \<notin> set rogue_provider_names) agg) title =
             (headers, shown @ [total], title')"
proof -
  let ?fc = "dict_get agg fc_name []"
  let ?agg1 = "AList.delete fc_name agg"
  let ?agg2 = "filter (\<lambda>x. fst x \<notin> set rogue_provider_names) ?agg1"
  let ?maj = "london_major_providers mry ?agg2"
  let ?sm = "london_small_providers ?agg2"
  let ?shown = "(if ?fc \<noteq> [] then [(fc_name, map Num (row_values mry qks yks ?fc))] else []) @
          map (\<lambda>x. (fst x, map Num (row_values mry qks yks (snd x)))) ?maj @
          (if ?sm \<noteq> []
           then [(''All other providers'', map (\<lambda>k. Num (column_total mry qks ?sm k)) yks)]
           else [])"
  let ?total = "(''**Total**'', map (\<lambda>k. Bold (column_total mry qks ((fc_name, ?fc) # ?maj @ ?sm) k)) yks)"
  let ?closed = "map (\<lambda>x. (fst x @ '' (closed)'', map Num (row_values mry qks yks (snd x))))
            (map (\<lambda>n. (n, dict_get ?agg1 n [])) (filter (\<lambda>n. n \<in> fst ` set ?agg1) rogue_provider_names))"
  from assms have h: "headers = ''Provider'' # map header_of yks"
    and r: "rows = ?shown @ ?total # ?closed" and t: "title' = title"
    unfolding london_table_rows Let_def by simp_all
  have c: "map fst ?closed = map (\<lambda>n. n @ '' (closed)'')
             (filter (\<lambda>n. n \<in> fst ` set agg) rogue_provider_names)"
  proof -
    have "filter (\<lambda>n. n \<in> fst ` set ?agg1) rogue_provider_names =
          filter (\<lambda>n. n \<in> fst ` set agg) rogue_provider_names"
      using fc_not_rogue by (intro filter_cong) (auto simp: delete_filter)
    then show ?thesis by (simp add: comp_def)
  qed
  have s: "\<forall>i<length yks. cell_value (snd ?total ! i) = column_sum ?shown i"
  proof (intro allI impI)
    fix i assume i: "i < length yks"
    have "cell_value (snd ?total ! i) = column_total mry qks ((fc_name, ?fc) # ?maj @ ?sm) (yks ! i)"
      using i by (simp add: cell_value_def)
    also have "\<dots> = row_value mry qks ?fc (yks ! i) + (column_total mry qks ?maj (yks ! i) +
        column_total mry qks ?sm (yks ! i))"
      by (simp add: column_total_Cons column_total_append)
    also have "\<dots> = column_sum ?shown i"
      unfolding column_sum_append column_sum_provider_rows[OF i] column_sum_pooled_row[OF i]
        column_sum_fc_row[OF i] ..
    finally show "cell_value (snd ?total ! i) = column_sum ?shown i" .
  qed
  let ?agg' = "filter (\<lambda>x. fst x \<notin> set rogue_provider_names) agg"
  have e1: "dict_get ?agg' fc_name [] = ?fc"
    using dict_get_filter[of "\<lambda>k. k \<notin> set rogue_provider_names" fc_name agg "[]"] fc_not_rogue by simp
  have e2: "filter (\<lambda>x. fst x \<notin> set rogue_provider_names) (AList.delete fc_name ?agg') = ?agg2"
  proof -
    have "filter (\<lambda>x. fst x \<notin> set rogue_provider_names) (filter (\<lambda>x. fst x \<noteq> fc_name) ?agg')
        = filter (\<lambda>x. fst x \<notin> set rogue_provider_names) (filter (\<lambda>x. fst x \<noteq> fc_name) agg)"
      by (induction agg) auto
    then show ?thesis by (simp only: delete_filter)
  qed
  have e3: "filter (\<lambda>n. n \<in> fst ` set (AList.delete fc_name ?agg')) rogue_provider_names = []"
    by (auto simp: filter_empty_conv delete_filter)
  have n: "london_table mry qks yks ?agg' title = (headers, ?shown @ [?total], title')"
    unfolding london_table_rows Let_def e1 e2 e3 h t by simp
  show ?thesis
  proof (intro exI conjI)
    show "rows = ?shown @ ?total # ?closed" by (rule r)
    show "fst ?total = ''**Total**''" by simp
    show "length headers = Suc (length yks)" using h by simp
    show "map fst ?closed = map (\<lambda>n. n @ '' (closed)'')
             (filter (\<lambda>n. n \<in> fst ` set agg) rogue_provider_names)" by (rule c)
    show "\<forall>i<length yks. cell_value (snd ?total ! i) = column_sum ?shown i" by (rule s)
    show "london_table mry qks yks ?agg' title = (headers, ?shown @ [?total], title')" by (rule n)
  qed
qed

section \<open>The Total row\<close>

lemma prepare_starts_Inr:
  assumes "prepare_starts_table_data so data min_starts = Inr (headers, rows, title)" and "rows \<noteq> []"
  shows "\<exists>sorted final.
      sorted_year_keys so (aggregate_starts_by_provider_year data (Some (most_recent_year_of data))) = Inr sorted \<and>
      sorted \<noteq> [] \<and>
      build_final_year_keys (most_recent_year_of data)
        (quarterly_keys_of (most_recent_year_of data) sorted) [] sorted = Inr final \<and>
      starts_table (most_recent_year_of data) (quarterly_keys_of (most_recent_year_of data) sorted) final
        (aggregate_starts_by_provider_year data (Some (most_recent_year_of data))) min_starts
        (standard_code (hd data) @ '' '' @ standard_name (hd data) @ '' starts'') = (headers, rows, title)"
  using assms
  by (auto simp: prepare_starts_table_data_def no_data_def Let_def most_recent_year_of_def
      split: if_splits sum.splits)

lemma prepare_london_Inr:
  assumes "prepare_london_sme_table_data so data = Inr (headers, rows, title)" and "rows \<noteq> []"
  shows "\<exists>sorted final.
      sorted_year_keys so (london_matrix data) = Inr sorted \<and>
      sorted \<noteq> [] \<and>
      build_final_year_keys (most_recent_year_of data)
        (quarterly_keys_of (most_recent_year_of data) sorted) [] sorted = Inr final \<and>
      london_table (most_recent_year_of data) (quarterly_keys_of (most_recent_year_of data) sorted) final
        (london_matrix data)
        (standard_code (hd data) @ '' '' @ standard_name (hd data) @ '' starts (London SMEs only)'') =
        (headers, rows, title)"
  using assms
  by (auto simp: prepare_london_sme_table_data_def no_data_def Let_def most_recent_year_of_def
      london_matrix_def split: if_splits sum.splits)

lemma providers_adjusted:
  "fst ` set (apply_founders_coders_adjustments agg) = insert fc_name (fst ` set agg)"
  by (auto simp: apply_founders_coders_adjustments_def Let_def keys_update)

lemma rogue_in_london_matrix:
  "filter (\<lambda>n. n \<in> fst ` set (london_matrix data)) rogue_provider_names =
   filter (\<lambda>n. n \<in> provider_clean ` set data) rogue_provider_names"
  using fc_not_rogue
  by (intro filter_cong) (auto simp: london_matrix_def providers_adjusted providers_aggregate)

text \<open>
  C1. Whenever starts.py produces a table with rows, its first row is the Total row and each
  of its cells is the sum of that column over all the rows below it (the individual rows and
  the pooled row). Whenever london_sme.py produces a table with rows, the rows are the
  counted rows (FOUNDERS & CODERS, the individual rows, the pooled row), then the Total row,
  then one row per closed provider present in the records; each cell of the Total row is the
  sum of that column over the counted rows; and the counted rows and the Total row are those
  of the table built from the matrix with the closed providers removed, so a closed
  provider's values reach neither the Total row nor the pooled row.
\<close>

theorem total_row_is_sum_of_counted_rows:
  "(prepare_starts_table_data so data min_starts = Inr (headers, rows, title) \<and> rows \<noteq> [] \<longrightarrow>
      fst (hd rows) = ''**Total**'' \<and>
      (\<forall>i<length headers - 1. cell_value (snd (hd rows) ! i) = column_sum (tl rows) i)) \<and>
   (prepare_london_sme_table_data so' data' = Inr (headers', rows', title') \<and> rows' \<noteq> [] \<longrightarrow>
      (\<exists>shown total closed.
          rows' = shown @ total # closed \<and> fst total = ''**Total**'' \<and>
          map fst closed = map (\<lambda>n. n @ '' (closed)'')
            (filter (\<lambda>n. n \<in> provider_clean ` set data') rogue_provider_names) \<and>
          (\<forall>i<length headers' - 1. cell_value (snd total ! i) = column_sum shown i) \<and>
          (\<exists>qks yks. london_table (most_recent_year_of data') qks yks
              (filter (\<lambda>x. fst x \<notin> set rogue_provider_names) (london_matrix data')) title' =
              (headers', shown @ [total], title'))))"
proof (intro conjI impI)
  assume a: "prepare_starts_table_data so data min_starts = Inr (headers, rows, title) \<and> rows \<noteq> []"
  from prepare_starts_Inr[of so data min_starts headers rows title] a
  obtain sorted final where
    t: "starts_table (most_recent_year_of data) (quarterly_keys_of (most_recent_year_of data) sorted) final
        (aggregate_starts_by_provider_year data (Some (most_recent_year_of data))) min_starts
        (standard_code (hd data) @ '' '' @ standard_name (hd data) @ '' starts'') = (headers, rows, title)"
    by blast
  from starts_table_total[OF t]
  have l: "fst (hd rows) = ''**Total**''" and n: "length headers = Suc (length final)"
    and s: "\<forall>i<length final. cell_value (snd (hd rows) ! i) = column_sum (tl rows) i"
    by blast+
  show "fst (hd rows) = ''**Total**''" by (rule l)
  show "\<forall>i<length headers - 1. cell_value (snd (hd rows) ! i) = column_sum (tl rows) i"
    using s n by simp
next
  assume a: "prepare_london_sme_table_data so' data' = Inr (headers', rows', title') \<and> rows' \<noteq> []"
  from prepare_london_Inr[of so' data' headers' rows' title'] a
  obtain sorted final where
    t: "london_table (most_recent_year_of data') (quarterly_keys_of (most_recent_year_of data') sorted) final
        (london_matrix data')
        (standard_code (hd data') @ '' '' @ standard_name (hd data') @ '' starts (London SMEs only)'') =
        (headers', rows', title')"
    by blast
  then have tt: "standard_code (hd data') @ '' '' @ standard_name (hd data') @ '' starts (London SMEs only)'' = title'"
    by (simp add: london_table_def Let_def)
  from london_table_total[OF t] obtain shown total closed where
    r: "rows' = shown @ total # closed" and l: "fst total = ''**Total**''"
    and n: "length headers' = Suc (length final)"
    and c: "map fst closed = map (\<lambda>n. n @ '' (closed)'')
             (filter (\<lambda>n. n \<in> fst ` set (london_matrix data')) rogue_provider_names)"
    and s: "\<forall>i<length final. cell_value (snd total ! i) = column_sum shown i"
    and e: "london_table (most_recent_year_of data') (quarterly_keys_of (most_recent_year_of data') sorted) final
              (filter (\<lambda>x. fst x \<notin> set rogue_provider_names) (london_matrix data'))
              (standard_code (hd data') @ '' '' @ standard_name (hd data') @ '' starts (London SMEs only)'') =
             (headers', shown @ [total], title')"
    by blast
  show "\<exists>shown total closed.
          rows' = shown @ total # closed \<and> fst total = ''**Total**'' \<and>
          map fst closed = map (\<lambda>n. n @ '' (closed)'')
            (filter (\<lambda>n. n \<in> provider_clean ` set data') rogue_provider_names) \<and>
          (\<forall>i<length headers' - 1. cell_value (snd total ! i) = column_sum shown i) \<and>
          (\<exists>qks yks. london_table (most_recent_year_of data') qks yks
              (filter (\<lambda>x. fst x \<notin> set rogue_provider_names) (london_matrix data')) title' =
              (headers', shown @ [total], title'))"
  proof (intro exI conjI)
    show "rows' = shown @ total # closed" by (rule r)
    show "fst total = ''**Total**''" by (rule l)
    show "map fst closed = map (\<lambda>n. n @ '' (closed)'')
            (filter (\<lambda>n. n \<in> provider_clean ` set data') rogue_provider_names)"
      using c by (simp only: rogue_in_london_matrix)
    show "\<forall>i<length headers' - 1. cell_value (snd total ! i) = column_sum shown i"
      using s n by simp
    show "london_table (most_recent_year_of data') (quarterly_keys_of (most_recent_year_of data') sorted) final
              (filter (\<lambda>x. fst x \<notin> set rogue_provider_names) (london_matrix data')) title' =
              (headers', shown @ [total], title')"
      using e tt by simp
  qed
qed

lemma starts_example_table:
  "prepare_starts_table_data (\<lambda>xs. xs) starts_example 3 =
     Inr ([''Provider'', ''2024-25'', ''2024-25 Q1'', ''2024-25 Q2''],
          [(''**Total**'', [Bold 19, Bold 13, Bold 6]),
           (''A'', [Num 10, Num 10, Num 0]), (''C'', [Num 6, Num 0, Num 6]),
           (''All other providers'', [Num 3, Num 3, Num 0])],
          ''ST0116 Software developer starts'')"
  by code_simp

lemma london_example_table:
  "prepare_london_sme_table_data (\<lambda>xs. xs) london_example =
     Inr ([''Provider'', ''2022-23'', ''2023-24'', ''2024-25'', ''2024-25 Q1'', ''2024-25 Q2'',
           ''2024-25 Q3''],
          [(''FOUNDERS & CODERS'', [Num 2, Num 13, Num 4, Num 1, Num 2, Num 1]),
           (''M'', [Num 0, Num 6, Num 0, Num 0, Num 0, Num 0]),
           (''All other providers'', [Num 0, Num 0, Num 6, Num 5, Num 1, Num 0]),
           (''**Total**'', [Bold 2, Bold 19, Bold 10, Bold 6, Bold 3, Bold 1]),
           (''CITY COLLEGE OF LONDON (closed)'', [Num 0, Num 0, Num 7, Num 0, Num 7, Num 0])],
          ''ST0116 Software developer starts (London SMEs only)'')"
  by code_simp


theorem total_row_is_sum_of_counted_rows_witness:
  "prepare_starts_table_data (\<lambda>xs. xs) starts_example 3 =
     Inr ([''Provider'', ''2024-25'', ''2024-25 Q1'', ''2024-25 Q2''],
          [(''**Total**'', [Bold 19, Bold 13, Bold 6]),
           (''A'', [Num 10, Num 10, Num 0]), (''C'', [Num 6, Num 0, Num 6]),
           (''All other providers'', [Num 3, Num 3, Num 0])],
          ''ST0116 Software developer starts'') \<and>
   cell_value (Bold 19) =
     column_sum [(''A'', [Num 10, Num 10, Num 0]), (''C'', [Num 6, Num 0, Num 6]),
                 (''All other providers'', [Num 3, Num 3, Num 0])] 0 \<and>
   prepare_london_sme_table_data (\<lambda>xs. xs) london_example =
     Inr ([''Provider'', ''2022-23'', ''2023-24'', ''2024-25'', ''2024-25 Q1'', ''2024-25 Q2'',
           ''2024-25 Q3''],
          [(''FOUNDERS & CODERS'', [Num 2, Num 13, Num 4, Num 1, Num 2, Num 1]),
           (''M'', [Num 0, Num 6, Num 0, Num 0, Num 0, Num 0]),
           (''All other providers'', [Num 0, Num 0, Num 6, Num 5, Num 1, Num 0]),
           (''**Total**'', [Bold 2, Bold 19, Bold 10, Bold 6, Bold 3, Bold 1]),
           (''CITY COLLEGE OF LONDON (closed)'', [Num 0, Num 0, Num 7, Num 0, Num 7, Num 0])],
          ''ST0116 Software developer starts (London SMEs only)'') \<and>
   (\<exists>shown total closed.
       [(''FOUNDERS & CODERS'', [Num 2, Num 13, Num 4, Num 1, Num 2, Num 1]),
        (''M'', [Num 0, Num 6, Num 0, Num 0, Num 0, Num 0]),
        (''All other providers'', [Num 0, Num 0, Num 6, Num 5, Num 1, Num 0]),
        (''**Total**'', [Bold 2, Bold 19, Bold 10, Bold 6, Bold 3, Bold 1]),
        (''CITY COLLEGE OF LONDON (closed)'', [Num 0, Num 0, Num 7, Num 0, Num 7, Num 0])] =
         shown @ total # closed \<and>
       fst total = ''**Total**'' \<and>
       map fst closed = [''CITY COLLEGE OF LONDON (closed)''] \<and>
       cell_value (snd total ! 1) = column_sum shown 1)"
proof -
  let ?H = "[''Provider'', ''2024-25'', ''2024-25 Q1'', ''2024-25 Q2'']"
  let ?R = "[(''**Total**'', [Bold 19, Bold 13, Bold 6]),
           (''A'', [Num 10, Num 10, Num 0]), (''C'', [Num 6, Num 0, Num 6]),
           (''All other providers'', [Num 3, Num 3, Num 0])]"
  let ?T = "''ST0116 Software developer starts''"
  let ?H' = "[''Provider'', ''2022-23'', ''2023-24'', ''2024-25'', ''2024-25 Q1'', ''2024-25 Q2'',
           ''2024-25 Q3'']"
  let ?R' = "[(''FOUNDERS & CODERS'', [Num 2, Num 13, Num 4, Num 1, Num 2, Num 1]),
           (''M'', [Num 0, Num 6, Num 0, Num 0, Num 0, Num 0]),
           (''All other providers'', [Num 0, Num 0, Num 6, Num 5, Num 1, Num 0]),
           (''**Total**'', [Bold 2, Bold 19, Bold 10, Bold 6, Bold 3, Bold 1]),
           (''CITY COLLEGE OF LONDON (closed)'', [Num 0, Num 0, Num 7, Num 0, Num 7, Num 0])]"
  let ?T' = "''ST0116 Software developer starts (London SMEs only)''"
  note th = total_row_is_sum_of_counted_rows[of "\<lambda>xs. xs" starts_example 3 ?H ?R ?T
      "\<lambda>xs. xs" london_example ?H' ?R' ?T']
  have ne: "?R \<noteq> []" and ne': "?R' \<noteq> []" by simp_all
  have "fst (hd ?R) = ''**Total**'' \<and>
      (\<forall>i<length ?H - 1. cell_value (snd (hd ?R) ! i) = column_sum (tl ?R) i)"
    by (rule mp[OF th[THEN conjunct1] conjI[OF starts_example_table ne]])
  then have s: "\<forall>i<length ?H - 1. cell_value (snd (hd ?R) ! i) = column_sum (tl ?R) i"
    by (rule conjunct2)
  have s0: "cell_value (Bold 19) =
     column_sum [(''A'', [Num 10, Num 10, Num 0]), (''C'', [Num 6, Num 0, Num 6]),
                 (''All other providers'', [Num 3, Num 3, Num 0])] 0"
    using s[rule_format, of 0] by simp
  have "\<exists>shown total closed.
          ?R' = shown @ total # closed \<and> fst total = ''**Total**'' \<and>
          map fst closed = map (\<lambda>n. n @ '' (closed)'')
            (filter (\<lambda>n. n \<in> provider_clean ` set london_example) rogue_provider_names) \<and>
          (\<forall>i<length ?H' - 1. cell_value (snd total ! i) = column_sum shown i) \<and>
          (\<exists>qks yks. london_table (most_recent_year_of london_example) qks yks
              (filter (\<lambda>x. fst x \<notin> set rogue_provider_names) (london_matrix london_example)) ?T' =
              (?H', shown @ [total], ?T'))"
    by (rule mp[OF th[THEN conjunct2] conjI[OF london_example_table ne']])
  then obtain shown total closed where
    r: "?R' = shown @ total # closed" and l: "fst total = ''**Total**''"
    and c: "map fst closed = map (\<lambda>n. n @ '' (closed)'')
            (filter (\<lambda>n. n \<in> provider_clean ` set london_example) rogue_provider_names)"
    and t: "\<forall>i<length ?H' - 1. cell_value (snd total ! i) = column_sum shown i"
    by (elim exE conjE) (rule that)
  have c': "map fst closed = [''CITY COLLEGE OF LONDON (closed)'']"
    unfolding c by (simp add: london_example_def rec_def rogue_provider_names_def)
  have t1: "cell_value (snd total ! 1) = column_sum shown 1"
    using t[rule_format, of 1] by simp
  have e: "\<exists>shown total closed. ?R' = shown @ total # closed \<and> fst total = ''**Total**'' \<and>
       map fst closed = [''CITY COLLEGE OF LONDON (closed)''] \<and>
       cell_value (snd total ! 1) = column_sum shown 1"
    by (intro exI conjI) (rule r, rule l, rule c', rule t1)
  show ?thesis
    by (intro conjI) (rule starts_example_table, rule s0, rule london_example_table, rule e)
qed

section \<open>Duplicate column keys\<close>

text \<open>
  C5. The column keys are not always free of duplicates. With a record of unknown quarter and
  a record of quarter 1 in the most recent year, the matrix holds the keys \<open>2024-25\<close> and
  \<open>2024-25 Q1\<close>; the loop keeps the first and puts the total column \<open>2024-25\<close> before the
  second, so the key \<open>2024-25\<close> stands twice, whichever way the key set is iterated. Both
  columns show the sum of the quarterly keys, 5; the 4 starts of unknown quarter are shown
  nowhere.
\<close>

theorem most_recent_year_column_twice:
  "all_year_keys (aggregate_starts_by_provider_year unknown_quarter_example (Some ''2024-25'')) =
     [''2024-25'', ''2024-25 Q1''] \<and>
   build_final_year_keys ''2024-25'' [''2024-25 Q1''] [] [''2024-25'', ''2024-25 Q1''] =
     Inr [''2024-25'', ''2024-25'', ''2024-25 Q1''] \<and>
   prepare_starts_table_data (\<lambda>xs. xs) unknown_quarter_example 3 =
     Inr ([''Provider'', ''2024-25'', ''2024-25'', ''2024-25 Q1''],
          [(''**Total**'', [Bold 5, Bold 5, Bold 5]), (''A'', [Num 5, Num 5, Num 5])],
          ''ST0116 Software developer starts'') \<and>
   prepare_starts_table_data rev unknown_quarter_example 3 =
     Inr ([''Provider'', ''2024-25'', ''2024-25'', ''2024-25 Q1''],
          [(''**Total**'', [Bold 5, Bold 5, Bold 5]), (''A'', [Num 5, Num 5, Num 5])],
          ''ST0116 Software developer starts'')"
  by (intro conjI; code_simp)

section \<open>Table preparation succeeds\<close>

lemma year_key_of_Some:
  "year_key_of (Some mry) r =
     (if mry \<noteq> [] \<and> year r = mry \<and> quarter r > 0 then mry @ '' Q'' @ str_of_int (quarter r)
      else year r)"
  by (auto simp: year_key_of_def)

lemma sort_key_fn_year_key:
  assumes "\<not> str_contains '' Q'' (year r)"
  shows "\<exists>v. sort_key_fn (year_key_of (Some mry) r) = Inr v"
proof (cases "mry \<noteq> [] \<and> year r = mry \<and> quarter r > 0")
  case True
  then have "sort_key_fn (year_key_of (Some mry) r) = Inr (mry, quarter r)"
    using assms sort_key_fn_refined[of mry "quarter r"] by (simp add: year_key_of_Some)
  then show ?thesis by blast
next
  case False
  then have "year_key_of (Some mry) r = year r" by (auto simp: year_key_of_Some)
  then show ?thesis using assms sort_key_fn_plain by simp
qed

lemma sorted_year_keys_ok:
  assumes "\<forall>k\<in>set (so (all_year_keys agg)). \<exists>v. sort_key_fn k = Inr v"
  shows "sorted_year_keys so agg = Inr (sort_key sort_key_val (so (all_year_keys agg)))"
proof -
  have "\<not> list_ex (\<lambda>k. isl (sort_key_fn k)) (so (all_year_keys agg))"
    using assms by (auto simp: list_ex_iff)
  then show ?thesis by (simp add: sorted_year_keys_def Let_def)
qed

lemma with_total_mem: "k \<in> set (with_total mry qks k)"
  by (simp add: with_total_def)

lemma build_final_subset:
  assumes "build_final_year_keys mry qks [] keys = Inr final"
  shows "set keys \<subseteq> set final"
proof -
  from assms have f: "final = concat (map (with_total mry qks) keys)"
    by (simp add: build_final_year_keys_eq split: if_splits)
  show ?thesis unfolding f using with_total_mem by auto
qed

lemma header_of_refined:
  assumes "\<not> str_contains '' Q'' y" "0 \<le> q"
  shows "header_of (y @ '' Q'' @ str_of_int q) = format_academic_year y @ '' Q'' @ str_of_int q"
proof -
  have c: "str_contains '' Q'' (y @ '' Q'' @ str_of_int q)"
    using str_contains_iff by blast
  have d: "list_all is_digit (str_of_int q)"
    using assms(2) by (simp add: str_of_int_def string_of_nat_digits)
  have "split_Q [] (y @ '' Q'' @ str_of_int q) = [y, str_of_int q]"
    using split_Q_sep[OF assms(1), of "[]" "str_of_int q"] split_Q_no_sep[OF digits_no_Q[OF d], of "[]"]
    by simp
  then show ?thesis using c by (simp add: header_of_def)
qed

lemma most_recent_year_mem: "data \<noteq> [] \<Longrightarrow> most_recent_year_of data \<in> year ` set data"
proof -
  assume "data \<noteq> []"
  then have ne: "sort (remdups (map year data)) \<noteq> []"
    by (metis length_0_conv length_sort length_greater_0_conv list.map_disc_iff remdups_eq_nil_iff)
  have "last (sort (remdups (map year data))) \<in> set (sort (remdups (map year data)))"
    using ne by (rule last_in_set)
  then show ?thesis by (simp add: most_recent_year_of_def)
qed

lemma prepare_starts_succeeds:
  assumes p: "permutes so" and ne: "data \<noteq> []"
    and ny: "\<forall>r\<in>set data. \<not> str_contains '' Q'' (year r)"
  shows "\<exists>sorted final.
      sorted_year_keys so (aggregate_starts_by_provider_year data (Some (most_recent_year_of data))) = Inr sorted \<and>
      set sorted = year_key_of (Some (most_recent_year_of data)) ` set data \<and> distinct sorted \<and>
      build_final_year_keys (most_recent_year_of data)
        (quarterly_keys_of (most_recent_year_of data) sorted) [] sorted = Inr final \<and>
      prepare_starts_table_data so data min_starts =
        Inr (starts_table (most_recent_year_of data) (quarterly_keys_of (most_recent_year_of data) sorted) final
        (aggregate_starts_by_provider_year data (Some (most_recent_year_of data))) min_starts
        (standard_code (hd data) @ '' '' @ standard_name (hd data) @ '' starts''))"
proof -
  let ?mry = "most_recent_year_of data"
  let ?agg = "aggregate_starts_by_provider_year data (Some ?mry)"
  let ?ks = "so (all_year_keys ?agg)"
  have ms: "mset ?ks = mset (all_year_keys ?agg)" using p by (simp add: permutes_def)
  then have sk: "set ?ks = year_key_of (Some ?mry) ` set data"
    using all_year_keys_aggregate by (metis mset_eq_setD)
  have ok: "\<forall>k\<in>set ?ks. \<exists>v. sort_key_fn k = Inr v"
    unfolding sk using ny sort_key_fn_year_key by blast
  let ?sorted = "sort_key sort_key_val ?ks"
  have s: "sorted_year_keys so ?agg = Inr ?sorted" using ok by (rule sorted_year_keys_ok[of so ?agg])
  have ss: "set ?sorted = year_key_of (Some ?mry) ` set data" using sk by simp
  have ds: "distinct ?sorted" using sorted_year_keys_mset(2)[OF s ms] .
  have sne: "?sorted \<noteq> []" using ss ne by (metis empty_is_image set_empty)
  let ?qks = "quarterly_keys_of ?mry ?sorted"
  have nofail: "\<not> (?qks = [] \<and> (\<exists>k\<in>set ?sorted. str_contains '' Q'' k))"
  proof
    assume a: "?qks = [] \<and> (\<exists>k\<in>set ?sorted. str_contains '' Q'' k)"
    then obtain k where k: "k \<in> set ?sorted" and c: "str_contains '' Q'' k" by blast
    then obtain r where r: "r \<in> set data" and kr: "k = year_key_of (Some ?mry) r"
      using ss by auto
    have "k \<noteq> year r" using c ny r by auto
    then have "k = ?mry @ '' Q'' @ str_of_int (quarter r)"
      using kr by (auto simp: year_key_of_Some split: if_splits)
    then have "startswith k ?mry" by (simp add: startswith_def)
    then have "k \<in> set ?qks" using k c by (simp add: quarterly_keys_of_def)
    then show False using a by simp
  qed
  let ?final = "concat (map (with_total ?mry ?qks) ?sorted)"
  have b: "build_final_year_keys ?mry ?qks [] ?sorted = Inr ?final"
    using nofail by (simp add: build_final_year_keys_eq)
  have srt: "sort (remdups (map year data)) \<noteq> []"
    using ne by (metis length_0_conv length_sort length_greater_0_conv list.map_disc_iff remdups_eq_nil_iff)
  have "prepare_starts_table_data so data min_starts =
        Inr (starts_table ?mry ?qks ?final ?agg min_starts
        (standard_code (hd data) @ '' '' @ standard_name (hd data) @ '' starts''))"
    using ne srt s sne b
    by (simp add: prepare_starts_table_data_def Let_def most_recent_year_of_def)
  then show ?thesis using s ss ds b by blast
qed

lemma permutes_id: "permutes (\<lambda>xs. xs)"
  by (simp add: permutes_def)

lemma extract_any_quarter_digit:
  "is_digit d \<Longrightarrow>
   extract_year_quarter_from_filename (''data-202425-q'' @ [d] @ ''.csv'') = (2024, 25, digit_val d)"
  by (simp add: extract_eval)

section \<open>The order of the columns\<close>

lemma sort_key_val_plain: "\<not> str_contains '' Q'' k \<Longrightarrow> sort_key_val k = (k, 0)"
  by (simp add: sort_key_val_def sort_key_fn_plain)

lemma sort_key_val_refined:
  "\<not> str_contains '' Q'' y \<Longrightarrow> 0 \<le> q \<Longrightarrow> sort_key_val (y @ '' Q'' @ str_of_int q) = (y, q)"
  using sort_key_fn_refined[of y q] by (simp add: sort_key_val_def)

lemma three_years_keys:
  "all_year_keys (aggregate_starts_by_provider_year three_years_example (Some ''2024-25'')) =
     [''2022-23'', ''2023-24'', ''2024-25 Q1'', ''2024-25 Q2'']"
  by code_simp

lemma three_years_mry: "most_recent_year_of three_years_example = ''2024-25''"
  by code_simp

lemma three_years_sort_keys:
  "sort_key_val ''2022-23'' = (''2022-23'', 0)"
  "sort_key_val ''2023-24'' = (''2023-24'', 0)"
  "sort_key_val ''2024-25 Q1'' = (''2024-25'', 1)"
  "sort_key_val ''2024-25 Q2'' = (''2024-25'', 2)"
  by code_simp+

lemma three_years_sorted:
  assumes "permutes so"
  shows "sort_key sort_key_val
      (so [''2022-23'', ''2023-24'', ''2024-25 Q1'', ''2024-25 Q2'']) =
     [''2022-23'', ''2023-24'', ''2024-25 Q1'', ''2024-25 Q2'']"
proof (rule sort_key_inj_key_eq)
  let ?ks = "[''2022-23'', ''2023-24'', ''2024-25 Q1'', ''2024-25 Q2'']"
  show m: "mset (so ?ks) = mset ?ks" using assms by (simp add: permutes_def)
  have "inj_on sort_key_val (set ?ks)" by (simp add: three_years_sort_keys)
  moreover have "set (so ?ks) = set ?ks" using m by (rule mset_eq_setD)
  ultimately show "inj_on sort_key_val (set (so ?ks))" by simp
  show "sorted (map sort_key_val ?ks)" by (simp add: three_years_sort_keys)
qed

lemma three_years_final:
  "build_final_year_keys ''2024-25''
     (quarterly_keys_of ''2024-25'' [''2022-23'', ''2023-24'', ''2024-25 Q1'', ''2024-25 Q2''])
     [] [''2022-23'', ''2023-24'', ''2024-25 Q1'', ''2024-25 Q2''] =
   Inr [''2022-23'', ''2023-24'', ''2024-25'', ''2024-25 Q1'', ''2024-25 Q2'']"
  by code_simp

lemma three_years_headers:
  "header_of ''2022-23'' = ''2022-23''"
  "header_of ''2023-24'' = ''2023-24''"
  "header_of ''2024-25'' = ''2024-25''"
  "header_of ''2024-25 Q1'' = ''2024-25 Q1''"
  "header_of ''2024-25 Q2'' = ''2024-25 Q2''"
  by code_simp+

lemma three_years_columns:
  assumes "permutes so"
  shows "\<exists>rows title. prepare_starts_table_data so three_years_example min_starts =
     Inr ([''Provider'', ''2022-23'', ''2023-24'', ''2024-25'', ''2024-25 Q1'', ''2024-25 Q2''], rows, title)"
proof -
  have ne: "three_years_example \<noteq> []" by (simp add: three_years_example_def)
  have ny: "\<forall>r\<in>set three_years_example. \<not> str_contains '' Q'' (year r)"
    by (simp add: three_years_example_def rec_def startswith_def)
  from prepare_starts_succeeds[OF assms ne ny, of min_starts] obtain sorted final where
    s: "sorted_year_keys so (aggregate_starts_by_provider_year three_years_example (Some ''2024-25'')) = Inr sorted"
    and b: "build_final_year_keys ''2024-25'' (quarterly_keys_of ''2024-25'' sorted) [] sorted = Inr final"
    and e: "prepare_starts_table_data so three_years_example min_starts =
        Inr (starts_table ''2024-25'' (quarterly_keys_of ''2024-25'' sorted) final
        (aggregate_starts_by_provider_year three_years_example (Some ''2024-25'')) min_starts
        (standard_code (hd three_years_example) @ '' '' @ standard_name (hd three_years_example) @ '' starts''))"
    unfolding three_years_mry by blast
  have "sorted = [''2022-23'', ''2023-24'', ''2024-25 Q1'', ''2024-25 Q2'']"
    using sorted_year_keys_Inr(1)[OF s] three_years_sorted[OF assms] by (simp add: three_years_keys)
  then have "final = [''2022-23'', ''2023-24'', ''2024-25'', ''2024-25 Q1'', ''2024-25 Q2'']"
    using b three_years_final by simp
  then show ?thesis
    unfolding e starts_table_rows by (simp add: three_years_headers)
qed

text \<open>
  C3. When the column plan is built without an error, the sorted keys are the observed keys,
  each once, in ascending order of their sort keys; the sort key of a key without \<open>' Q'\<close> is
  the key with ordinal 0, and that of a year followed by \<open>' Q'\<close> and a number is the year
  with that number. Without a quarterly key of the most recent year the final keys are the
  sorted keys; otherwise the most recent year is inserted, as the total column, immediately
  before the first quarterly key of that year and nothing else changes. Records of 2022-23,
  2023-24 and of quarters 1 and 2 of 2024-25 give the columns
  2022-23, 2023-24, 2024-25, 2024-25 Q1, 2024-25 Q2, however the key set is iterated.
\<close>

theorem column_plan_order:
  "(permutes so \<and> sorted_year_keys so agg = Inr year_keys \<and>
    build_final_year_keys mry (quarterly_keys_of mry year_keys) [] year_keys = Inr final \<longrightarrow>
      mset year_keys = mset (all_year_keys agg) \<and>
      sorted (map sort_key_val year_keys) \<and>
      (quarterly_keys_of mry year_keys = [] \<longrightarrow> final = year_keys) \<and>
      (quarterly_keys_of mry year_keys \<noteq> [] \<longrightarrow>
         (\<exists>pre post. year_keys = pre @ hd (quarterly_keys_of mry year_keys) # post \<and>
            final = pre @ mry # hd (quarterly_keys_of mry year_keys) # post \<and>
            (\<forall>k\<in>set pre. \<not> (startswith k mry \<and> str_contains '' Q'' k))))) \<and>
   (\<forall>k. \<not> str_contains '' Q'' k \<longrightarrow> sort_key_val k = (k, 0)) \<and>
   (\<forall>y q. \<not> str_contains '' Q'' y \<and> 0 \<le> q \<longrightarrow> sort_key_val (y @ '' Q'' @ str_of_int q) = (y, q)) \<and>
   (permutes so \<longrightarrow>
      (\<exists>rows title. prepare_starts_table_data so three_years_example min_starts =
         Inr ([''Provider'', ''2022-23'', ''2023-24'', ''2024-25'', ''2024-25 Q1'', ''2024-25 Q2''],
              rows, title)))"
proof (intro conjI impI allI)
  assume a: "permutes so \<and> sorted_year_keys so agg = Inr year_keys \<and>
    build_final_year_keys mry (quarterly_keys_of mry year_keys) [] year_keys = Inr final"
  then have s: "sorted_year_keys so agg = Inr year_keys"
    and m: "mset (so (all_year_keys agg)) = mset (all_year_keys agg)"
    and b: "build_final_year_keys mry (quarterly_keys_of mry year_keys) [] year_keys = Inr final"
    by (simp_all add: permutes_def)
  show "mset year_keys = mset (all_year_keys agg)" using sorted_year_keys_mset(1)[OF s m] .
  show "sorted (map sort_key_val year_keys)" using sorted_year_keys_mset(4)[OF s m] .
  {
    assume "quarterly_keys_of mry year_keys = []"
    then show "final = year_keys" using build_final_no_quarterly[OF b] by simp
  }
  {
    assume "quarterly_keys_of mry year_keys \<noteq> []"
    then show "\<exists>pre post. year_keys = pre @ hd (quarterly_keys_of mry year_keys) # post \<and>
            final = pre @ mry # hd (quarterly_keys_of mry year_keys) # post \<and>
            (\<forall>k\<in>set pre. \<not> (startswith k mry \<and> str_contains '' Q'' k))"
      using build_final_with_quarterly[OF b _ sorted_year_keys_mset(2)[OF s m]] by simp
  }
next
  fix k assume "\<not> str_contains '' Q'' k"
  then show "sort_key_val k = (k, 0)" by (rule sort_key_val_plain)
next
  fix y :: string and q :: int assume "\<not> str_contains '' Q'' y \<and> 0 \<le> q"
  then show "sort_key_val (y @ '' Q'' @ str_of_int q) = (y, q)"
    using sort_key_val_refined by blast
next
  assume "permutes so"
  then show "\<exists>rows title. prepare_starts_table_data so three_years_example min_starts =
         Inr ([''Provider'', ''2022-23'', ''2023-24'', ''2024-25'', ''2024-25 Q1'', ''2024-25 Q2''],
              rows, title)"
    by (rule three_years_columns)
qed


lemma three_years_sorted_keys:
  "sorted_year_keys (\<lambda>xs. xs)
     (aggregate_starts_by_provider_year three_years_example (Some ''2024-25'')) =
   Inr [''2022-23'', ''2023-24'', ''2024-25 Q1'', ''2024-25 Q2'']"
  by code_simp

lemma three_years_quarterly:
  "quarterly_keys_of ''2024-25'' [''2022-23'', ''2023-24'', ''2024-25 Q1'', ''2024-25 Q2''] =
     [''2024-25 Q1'', ''2024-25 Q2'']"
  by code_simp

theorem column_plan_order_witness:
  "permutes (\<lambda>xs. xs) \<and>
   sorted_year_keys (\<lambda>xs. xs)
     (aggregate_starts_by_provider_year three_years_example (Some ''2024-25'')) =
     Inr [''2022-23'', ''2023-24'', ''2024-25 Q1'', ''2024-25 Q2''] \<and>
   build_final_year_keys ''2024-25''
     (quarterly_keys_of ''2024-25'' [''2022-23'', ''2023-24'', ''2024-25 Q1'', ''2024-25 Q2''])
     [] [''2022-23'', ''2023-24'', ''2024-25 Q1'', ''2024-25 Q2''] =
     Inr [''2022-23'', ''2023-24'', ''2024-25'', ''2024-25 Q1'', ''2024-25 Q2''] \<and>
   sorted (map sort_key_val [''2022-23'', ''2023-24'', ''2024-25 Q1'', ''2024-25 Q2'']) \<and>
   (\<exists>pre post.
       [''2022-23'', ''2023-24'', ''2024-25 Q1'', ''2024-25 Q2''] = pre @ ''2024-25 Q1'' # post \<and>
       [''2022-23'', ''2023-24'', ''2024-25'', ''2024-25 Q1'', ''2024-25 Q2''] =
         pre @ ''2024-25'' # ''2024-25 Q1'' # post) \<and>
   sort_key_val ''2023-24'' = (''2023-24'', 0) \<and>
   sort_key_val (''2024-25'' @ '' Q'' @ str_of_int 2) = (''2024-25'', 2) \<and>
   (\<exists>rows title. prepare_starts_table_data (\<lambda>xs. xs) three_years_example 3 =
      Inr ([''Provider'', ''2022-23'', ''2023-24'', ''2024-25'', ''2024-25 Q1'', ''2024-25 Q2''],
           rows, title))"
proof -
  let ?agg = "aggregate_starts_by_provider_year three_years_example (Some ''2024-25'')"
  let ?yk = "[''2022-23'', ''2023-24'', ''2024-25 Q1'', ''2024-25 Q2'']"
  let ?final = "[''2022-23'', ''2023-24'', ''2024-25'', ''2024-25 Q1'', ''2024-25 Q2'']"
  note th = column_plan_order[of "\<lambda>xs. xs" ?agg ?yk "''2024-25''" ?final 3]
  have h: "permutes (\<lambda>xs. xs) \<and> sorted_year_keys (\<lambda>xs. xs) ?agg = Inr ?yk \<and>
    build_final_year_keys ''2024-25'' (quarterly_keys_of ''2024-25'' ?yk) [] ?yk = Inr ?final"
    by (intro conjI) (rule permutes_id, rule three_years_sorted_keys, rule three_years_final)
  have c1: "mset ?yk = mset (all_year_keys ?agg) \<and>
      sorted (map sort_key_val ?yk) \<and>
      (quarterly_keys_of ''2024-25'' ?yk = [] \<longrightarrow> ?final = ?yk) \<and>
      (quarterly_keys_of ''2024-25'' ?yk \<noteq> [] \<longrightarrow>
         (\<exists>pre post. ?yk = pre @ hd (quarterly_keys_of ''2024-25'' ?yk) # post \<and>
            ?final = pre @ ''2024-25'' # hd (quarterly_keys_of ''2024-25'' ?yk) # post \<and>
            (\<forall>k\<in>set pre. \<not> (startswith k ''2024-25'' \<and> str_contains '' Q'' k))))"
    by (rule mp[OF th[THEN conjunct1] h])
  have srt: "sorted (map sort_key_val ?yk)" using c1 by (elim conjE)
  have qne: "quarterly_keys_of ''2024-25'' ?yk \<noteq> []" by (simp add: three_years_quarterly)
  have "quarterly_keys_of ''2024-25'' ?yk \<noteq> [] \<longrightarrow>
         (\<exists>pre post. ?yk = pre @ hd (quarterly_keys_of ''2024-25'' ?yk) # post \<and>
            ?final = pre @ ''2024-25'' # hd (quarterly_keys_of ''2024-25'' ?yk) # post \<and>
            (\<forall>k\<in>set pre. \<not> (startswith k ''2024-25'' \<and> str_contains '' Q'' k)))"
    using c1 by (elim conjE)
  then have "\<exists>pre post. ?yk = pre @ hd (quarterly_keys_of ''2024-25'' ?yk) # post \<and>
            ?final = pre @ ''2024-25'' # hd (quarterly_keys_of ''2024-25'' ?yk) # post \<and>
            (\<forall>k\<in>set pre. \<not> (startswith k ''2024-25'' \<and> str_contains '' Q'' k))"
    using qne by (rule mp)
  then obtain pre post where
    p1: "?yk = pre @ hd (quarterly_keys_of ''2024-25'' ?yk) # post"
    and p2: "?final = pre @ ''2024-25'' # hd (quarterly_keys_of ''2024-25'' ?yk) # post"
    by (elim exE conjE) (rule that)
  have hq: "hd (quarterly_keys_of ''2024-25'' ?yk) = ''2024-25 Q1''"
    by (simp add: three_years_quarterly)
  have ins: "\<exists>pre post. ?yk = pre @ ''2024-25 Q1'' # post \<and>
      ?final = pre @ ''2024-25'' # ''2024-25 Q1'' # post"
    using p1 p2 unfolding hq by (intro exI conjI)
  have ns: "\<not> str_contains '' Q'' ''2023-24''" by (simp add: startswith_def)
  have k1: "sort_key_val ''2023-24'' = (''2023-24'', 0)"
    by (rule th[THEN conjunct2, THEN conjunct1, rule_format, OF ns])
  have ns2: "\<not> str_contains '' Q'' ''2024-25'' \<and> (0::int) \<le> 2" by (simp add: startswith_def)
  have k2: "sort_key_val (''2024-25'' @ '' Q'' @ str_of_int 2) = (''2024-25'', 2)"
    by (rule th[THEN conjunct2, THEN conjunct2, THEN conjunct1, rule_format, OF ns2])
  have sc: "\<exists>rows title. prepare_starts_table_data (\<lambda>xs. xs) three_years_example 3 =
      Inr ([''Provider'', ''2022-23'', ''2023-24'', ''2024-25'', ''2024-25 Q1'', ''2024-25 Q2''],
           rows, title)"
    by (rule mp[OF th[THEN conjunct2, THEN conjunct2, THEN conjunct2] permutes_id])
  show ?thesis
    by (intro conjI) (rule permutes_id, rule three_years_sorted_keys, rule three_years_final,
        rule srt, rule ins, rule k1, rule k2, rule sc)
qed

section \<open>Refinement of the most recent year\<close>

lemma startswith_le: "startswith s p \<Longrightarrow> p \<le> (s :: string)"
proof (induction p arbitrary: s)
  case Nil
  then show ?case by simp
next
  case (Cons a p)
  then obtain s' where s: "s = a # s'" and t: "take (length p) s' = p"
    by (cases s) (auto simp: startswith_def)
  then have "p \<le> s'" using Cons.IH[of s'] by (simp add: startswith_def)
  then show ?case using s by simp
qed

lemma sorted_last_max: "sorted zs \<Longrightarrow> z \<in> set zs \<Longrightarrow> z \<le> last zs"
  using sorted_le_last[of "\<lambda>x. x" zs z] by simp

lemma year_le_most_recent: "r \<in> set data \<Longrightarrow> year r \<le> most_recent_year_of data"
proof -
  assume "r \<in> set data"
  then have "year r \<in> set (sort (remdups (map year data)))" by simp
  then show ?thesis
    unfolding most_recent_year_of_def by (intro sorted_last_max) simp_all
qed

lemma startswith_year_key:
  assumes "r \<in> set data"
  shows "startswith (year_key_of (Some (most_recent_year_of data)) r) (most_recent_year_of data)
           \<longleftrightarrow> year r = most_recent_year_of data"
proof
  let ?mry = "most_recent_year_of data"
  assume h: "startswith (year_key_of (Some ?mry) r) ?mry"
  show "year r = ?mry"
  proof (rule ccontr)
    assume n: "year r \<noteq> ?mry"
    then have "year_key_of (Some ?mry) r = year r" by (simp add: year_key_of_Some)
    then have "?mry \<le> year r" using h startswith_le by simp
    then show False using year_le_most_recent[OF assms] n by simp
  qed
next
  let ?mry = "most_recent_year_of data"
  assume "year r = ?mry"
  then show "startswith (year_key_of (Some ?mry) r) ?mry"
    by (simp add: year_key_of_Some startswith_def)
qed

lemma sum_keys_swap:
  "distinct ks \<Longrightarrow>
   (\<Sum>k\<leftarrow>ks. \<Sum>r\<leftarrow>rs. if c r \<and> key r = k then (s r :: int) else 0) =
   (\<Sum>r\<leftarrow>rs. if c r \<and> key r \<in> set ks then s r else 0)"
proof (induction ks)
  case Nil
  then show ?case by simp
next
  case (Cons k ks)
  then have ih: "(\<Sum>k\<leftarrow>ks. \<Sum>r\<leftarrow>rs. if c r \<and> key r = k then s r else 0) =
      (\<Sum>r\<leftarrow>rs. if c r \<and> key r \<in> set ks then s r else 0)"
    and nk: "k \<notin> set ks" by simp_all
  have "(\<Sum>r\<leftarrow>rs. if c r \<and> key r = k then s r else 0) +
        (\<Sum>r\<leftarrow>rs. if c r \<and> key r \<in> set ks then s r else 0) =
        (\<Sum>r\<leftarrow>rs. (if c r \<and> key r = k then s r else 0) + (if c r \<and> key r \<in> set ks then s r else 0))"
    by (simp add: sum_list_addf)
  also have "\<dots> = (\<Sum>r\<leftarrow>rs. if c r \<and> key r \<in> set (k # ks) then s r else 0)"
    using nk by (intro arg_cong[where f=sum_list] map_cong refl) auto
  finally show ?case using ih by simp
qed

lemma refined_sum_eq:
  assumes p: "permutes so" and ne: "most_recent_year_of data \<noteq> []"
    and q: "\<forall>r\<in>set data. year r = most_recent_year_of data \<longrightarrow> 0 < quarter r"
    and s: "sorted_year_keys so (aggregate_starts_by_provider_year data (Some (most_recent_year_of data))) = Inr yks"
  shows "row_value (most_recent_year_of data) (quarterly_keys_of (most_recent_year_of data) yks)
           (dict_get (aggregate_starts_by_provider_year data (Some (most_recent_year_of data))) p [])
           (most_recent_year_of data) =
         matrix_get (aggregate_starts_by_provider_year data None) p (most_recent_year_of data)"
proof -
  let ?mry = "most_recent_year_of data"
  let ?agg = "aggregate_starts_by_provider_year data (Some ?mry)"
  let ?qks = "quarterly_keys_of ?mry yks"
  have ms: "mset (so (all_year_keys ?agg)) = mset (all_year_keys ?agg)"
    using p by (simp add: permutes_def)
  have ds: "distinct yks" and ss: "set yks = year_key_of (Some ?mry) ` set data"
    using sorted_year_keys_mset(2,3)[OF s ms] all_year_keys_aggregate by simp_all
  have dq: "distinct ?qks" using ds by (simp add: quarterly_keys_of_def)
  have mem: "year_key_of (Some ?mry) r \<in> set ?qks \<longleftrightarrow> year r = ?mry" if r: "r \<in> set data" for r
  proof
    assume "year_key_of (Some ?mry) r \<in> set ?qks"
    then have "startswith (year_key_of (Some ?mry) r) ?mry" by (simp add: quarterly_keys_of_def)
    then show "year r = ?mry" using startswith_year_key[OF r] by simp
  next
    assume y: "year r = ?mry"
    then have k: "year_key_of (Some ?mry) r = ?mry @ '' Q'' @ str_of_int (quarter r)"
      using q r ne by (simp add: year_key_of_Some)
    have "str_contains '' Q'' (?mry @ '' Q'' @ str_of_int (quarter r))"
      using str_contains_iff by blast
    moreover have "startswith (?mry @ '' Q'' @ str_of_int (quarter r)) ?mry"
      by (simp add: startswith_def)
    moreover have "year_key_of (Some ?mry) r \<in> set yks" using ss r by blast
    ultimately show "year_key_of (Some ?mry) r \<in> set ?qks"
      unfolding k by (simp add: quarterly_keys_of_def)
  qed
  have "row_value ?mry ?qks (dict_get ?agg p []) ?mry = (\<Sum>k\<leftarrow>?qks. matrix_get ?agg p k)"
    by (simp add: row_value_def matrix_get_def)
  also have "\<dots> = (\<Sum>k\<leftarrow>?qks. \<Sum>r\<leftarrow>data.
      if provider_clean r = p \<and> year_key_of (Some ?mry) r = k then starts r else 0)"
    by (simp add: matrix_get_aggregate)
  also have "\<dots> = (\<Sum>r\<leftarrow>data. if provider_clean r = p \<and> year_key_of (Some ?mry) r \<in> set ?qks
      then starts r else 0)"
    using dq by (rule sum_keys_swap)
  also have "\<dots> = (\<Sum>r\<leftarrow>data. if provider_clean r = p \<and> year r = ?mry then starts r else 0)"
    using mem by (intro arg_cong[where f=sum_list] map_cong refl) auto
  also have "\<dots> = matrix_get (aggregate_starts_by_provider_year data None) p ?mry"
    by (simp add: matrix_get_aggregate year_key_of_def)
  finally show ?thesis .
qed


text \<open>
  C2 (amended). Let the most recent year be a non-empty string, let every record of that year
  have a positive quarter, and let the keys sort without an error. Then for every provider the
  value of the total column (the sum of the provider's entries under the quarterly keys of
  the most recent year) equals the provider's entry for that year in the matrix aggregated
  without refinement, which is the sum of the starts of the provider's records of that year.
\<close>

theorem refinement_conservation:
  "permutes so \<and> most_recent_year_of data \<noteq> [] \<and>
   (\<forall>r\<in>set data. year r = most_recent_year_of data \<longrightarrow> 0 < quarter r) \<and>
   sorted_year_keys so
     (aggregate_starts_by_provider_year data (Some (most_recent_year_of data))) = Inr yks \<longrightarrow>
     row_value (most_recent_year_of data) (quarterly_keys_of (most_recent_year_of data) yks)
       (dict_get (aggregate_starts_by_provider_year data (Some (most_recent_year_of data))) p [])
       (most_recent_year_of data) =
     matrix_get (aggregate_starts_by_provider_year data None) p (most_recent_year_of data) \<and>
     matrix_get (aggregate_starts_by_provider_year data None) p (most_recent_year_of data) =
     (\<Sum>r\<leftarrow>data. if provider_clean r = p \<and> year r = most_recent_year_of data then starts r else 0)"
proof (intro impI conjI)
  assume a: "permutes so \<and> most_recent_year_of data \<noteq> [] \<and>
   (\<forall>r\<in>set data. year r = most_recent_year_of data \<longrightarrow> 0 < quarter r) \<and>
   sorted_year_keys so
     (aggregate_starts_by_provider_year data (Some (most_recent_year_of data))) = Inr yks"
  then show "row_value (most_recent_year_of data) (quarterly_keys_of (most_recent_year_of data) yks)
       (dict_get (aggregate_starts_by_provider_year data (Some (most_recent_year_of data))) p [])
       (most_recent_year_of data) =
     matrix_get (aggregate_starts_by_provider_year data None) p (most_recent_year_of data)"
    using refined_sum_eq[of so data yks p] by blast
  show "matrix_get (aggregate_starts_by_provider_year data None) p (most_recent_year_of data) =
     (\<Sum>r\<leftarrow>data. if provider_clean r = p \<and> year r = most_recent_year_of data then starts r else 0)"
    by (simp add: matrix_get_aggregate year_key_of_def)
qed

text \<open>
  The claim as stated fails when a record of the most recent year has no quarter: its starts
  stay under the unrefined key and are missing from the sum over the quarterly keys.
\<close>

theorem refinement_conservation_counterexample:
  "most_recent_year_of unknown_quarter_example = ''2024-25'' \<and>
   sorted_year_keys (\<lambda>xs. xs)
     (aggregate_starts_by_provider_year unknown_quarter_example (Some ''2024-25'')) =
     Inr [''2024-25'', ''2024-25 Q1''] \<and>
   row_value ''2024-25'' (quarterly_keys_of ''2024-25'' [''2024-25'', ''2024-25 Q1''])
     (dict_get (aggregate_starts_by_provider_year unknown_quarter_example (Some ''2024-25'')) ''A'' [])
     ''2024-25'' = 5 \<and>
   matrix_get (aggregate_starts_by_provider_year unknown_quarter_example None) ''A'' ''2024-25'' = 9 \<and>
   row_value ''2024-25'' (quarterly_keys_of ''2024-25'' [''2024-25'', ''2024-25 Q1''])
     (dict_get (aggregate_starts_by_provider_year unknown_quarter_example (Some ''2024-25'')) ''A'' [])
     ''2024-25'' \<noteq>
   matrix_get (aggregate_starts_by_provider_year unknown_quarter_example None) ''A'' ''2024-25''"
  by (intro conjI; code_simp)

theorem refinement_conservation_witness:
  "permutes (\<lambda>xs. xs) \<and> most_recent_year_of three_years_example = ''2024-25'' \<and>
   sorted_year_keys (\<lambda>xs. xs)
     (aggregate_starts_by_provider_year three_years_example (Some ''2024-25'')) =
     Inr [''2022-23'', ''2023-24'', ''2024-25 Q1'', ''2024-25 Q2''] \<and>
   row_value ''2024-25''
     (quarterly_keys_of ''2024-25'' [''2022-23'', ''2023-24'', ''2024-25 Q1'', ''2024-25 Q2''])
     (dict_get (aggregate_starts_by_provider_year three_years_example (Some ''2024-25'')) ''A'' [])
     ''2024-25'' =
     matrix_get (aggregate_starts_by_provider_year three_years_example None) ''A'' ''2024-25'' \<and>
   matrix_get (aggregate_starts_by_provider_year three_years_example None) ''A'' ''2024-25'' = 6"
proof -
  let ?yks = "[''2022-23'', ''2023-24'', ''2024-25 Q1'', ''2024-25 Q2'']"
  note th = refinement_conservation[of "\<lambda>xs. xs" three_years_example ?yks "''A''",
      unfolded three_years_mry]
  have ne: "''2024-25'' \<noteq> []" by simp
  have q: "\<forall>r\<in>set three_years_example. year r = ''2024-25'' \<longrightarrow> 0 < quarter r"
    by (simp add: three_years_example_def rec_def)
  have h: "permutes (\<lambda>xs. xs) \<and> ''2024-25'' \<noteq> [] \<and>
      (\<forall>r\<in>set three_years_example. year r = ''2024-25'' \<longrightarrow> 0 < quarter r) \<and>
      sorted_year_keys (\<lambda>xs. xs)
        (aggregate_starts_by_provider_year three_years_example (Some ''2024-25'')) = Inr ?yks"
    by (intro conjI) (rule permutes_id, rule ne, rule q, rule three_years_sorted_keys)
  have c: "row_value ''2024-25'' (quarterly_keys_of ''2024-25'' ?yks)
       (dict_get (aggregate_starts_by_provider_year three_years_example (Some ''2024-25'')) ''A'' [])
       ''2024-25'' =
     matrix_get (aggregate_starts_by_provider_year three_years_example None) ''A'' ''2024-25''"
    using mp[OF th h] by (rule conjunct1)
  have v: "matrix_get (aggregate_starts_by_provider_year three_years_example None) ''A'' ''2024-25'' = 6"
    by code_simp
  show ?thesis
    by (intro conjI) (rule permutes_id, rule three_years_mry, rule three_years_sorted_keys,
        rule c, rule v)
qed

section \<open>Threshold bucketing\<close>

lemma agg_snd: "distinct (map fst agg) \<Longrightarrow> x \<in> set agg \<Longrightarrow> dict_get agg (fst x) d = snd x"
  using dict_get_mem[of agg "fst x" "snd x" d] by simp

lemma inner_step:
  "dict_get (aggregate_step mry agg r) p [] =
     (if p = provider_clean r
      then AList.update (year_key_of mry r)
             (dict_get (dict_get agg p []) (year_key_of mry r) 0 + starts r) (dict_get agg p [])
      else dict_get agg p [])"
  by (simp add: aggregate_step_simp dict_get_update)

lemma distinct_inner_step:
  "distinct (map fst (dict_get agg p [])) \<Longrightarrow>
   distinct (map fst (dict_get (aggregate_step mry agg r) p []))"
  using distinct_update[of "dict_get agg p []"] by (auto simp: inner_step)

lemma distinct_inner_foldl:
  "distinct (map fst (dict_get agg p [])) \<Longrightarrow>
   distinct (map fst (dict_get (foldl (aggregate_step mry) agg rs) p []))"
proof (induction rs arbitrary: agg)
  case Nil
  then show ?case by simp
next
  case (Cons r rs)
  from Cons.IH[OF distinct_inner_step[OF Cons.prems]] show ?case by simp
qed

lemma distinct_inner:
  "distinct (map fst (dict_get (aggregate_starts_by_provider_year rs mry) p []))"
proof -
  have "distinct (map fst (dict_get ([] :: aggregated) p []))" by (simp add: dict_get_def)
  then show ?thesis
    unfolding aggregate_starts_by_provider_year_def by (rule distinct_inner_foldl)
qed

lemma assoc_sum_filter:
  "distinct (map fst yd) \<Longrightarrow>
   sum_list (map snd (filter (\<lambda>(k, n). Q k) yd)) = (\<Sum>k\<leftarrow>filter Q (map fst yd). dict_get yd k (0::int))"
proof (induction yd)
  case Nil
  then show ?case by simp
next
  case (Cons a yd)
  obtain k v where a: "a = (k, v)" by (cases a)
  have d: "distinct (map fst yd)" and nk: "k \<notin> fst ` set yd" using Cons.prems a by auto
  have e: "(\<Sum>k'\<leftarrow>filter Q (map fst yd). dict_get ((k, v) # yd) k' 0) =
           (\<Sum>k'\<leftarrow>filter Q (map fst yd). dict_get yd k' 0)"
  proof (intro arg_cong[where f=sum_list] map_cong refl)
    fix k' assume "k' \<in> set (filter Q (map fst yd))"
    then have "k' \<noteq> k" using nk by auto
    then show "dict_get ((k, v) # yd) k' 0 = dict_get yd k' 0" by (simp add: dict_get_def)
  qed
  have g: "dict_get ((k, v) # yd) k 0 = v" by (simp add: dict_get_def)
  show ?case using Cons.IH[OF d] e g unfolding a by simp
qed

lemma recent_total_eq:
  "recent_total data p =
     (\<Sum>r\<leftarrow>data. if provider_clean r = p \<and> year r = most_recent_year_of data then starts r else 0)"
proof -
  let ?mry = "most_recent_year_of data"
  let ?agg = "aggregate_starts_by_provider_year data (Some ?mry)"
  let ?yd = "dict_get ?agg p []"
  let ?Q = "\<lambda>k. startswith k ?mry"
  let ?ks = "filter ?Q (map fst ?yd)"
  have d: "distinct (map fst ?yd)" by (rule distinct_inner)
  then have dk: "distinct ?ks" by simp
  have "recent_total data p = (\<Sum>k\<leftarrow>?ks. dict_get ?yd k 0)"
    unfolding recent_total_def recent_starts_def using assoc_sum_filter[OF d, of ?Q] by simp
  also have "\<dots> = (\<Sum>k\<leftarrow>?ks. \<Sum>r\<leftarrow>data.
      if provider_clean r = p \<and> year_key_of (Some ?mry) r = k then starts r else 0)"
    using matrix_get_aggregate[of data "Some ?mry" p] by (simp add: matrix_get_def)
  also have "\<dots> = (\<Sum>r\<leftarrow>data. if provider_clean r = p \<and> year_key_of (Some ?mry) r \<in> set ?ks
      then starts r else 0)"
    using dk by (rule sum_keys_swap)
  also have "\<dots> = (\<Sum>r\<leftarrow>data. if provider_clean r = p \<and> year r = ?mry then starts r else 0)"
  proof (intro arg_cong[where f=sum_list] map_cong refl)
    fix r assume r: "r \<in> set data"
    have "provider_clean r = p \<Longrightarrow> year_key_of (Some ?mry) r \<in> set (map fst ?yd)"
      using has_key_aggregate[of data "Some ?mry" p "year_key_of (Some ?mry) r"] r
      by (auto simp: has_key_def)
    then have "provider_clean r = p \<and> year_key_of (Some ?mry) r \<in> set ?ks \<longleftrightarrow>
        provider_clean r = p \<and> year r = ?mry"
      using startswith_year_key[OF r] by auto
    then show "(if provider_clean r = p \<and> year_key_of (Some ?mry) r \<in> set ?ks then starts r else 0) =
        (if provider_clean r = p \<and> year r = ?mry then starts r else 0)"
      by simp
  qed
  finally show ?thesis .
qed

lemma sorted_rev_sort_reverse: "sorted (rev (map f (sort_reverse f xs)))"
  by (simp add: sort_reverse_def rev_map)

lemma set_sort_reverse: "set (sort_reverse f xs) = set xs"
  by (simp add: sort_reverse_def)

lemma distinct_fst_sort_reverse:
  "distinct (map fst xs) \<Longrightarrow> distinct (map fst (sort_reverse f xs))"
proof -
  assume d: "distinct (map fst xs)"
  have "mset (map fst (sort_reverse f xs)) = mset (map fst xs)"
    using mset_sort_reverse[of f xs] by (metis mset_map)
  then show ?thesis using d by (metis mset_eq_imp_distinct_iff)
qed


lemma threshold_partition:
  assumes pr: "prepare_starts_table_data so data min_starts = Inr (headers, rows, title)"
    and ne: "rows \<noteq> []"
  shows "\<exists>individual pooled qks yks.
      tl rows = individual @ pooled \<and> length yks = length headers - 1 \<and>
      distinct (map fst individual) \<and>
      set (map fst individual) = {p \<in> provider_clean ` set data. shown_individually data min_starts p} \<and>
      sorted (rev (map (\<lambda>r. recent_total data (fst r)) individual)) \<and>
      (\<forall>r\<in>set individual. snd r = map Num (row_values (most_recent_year_of data) qks yks
          (dict_get (aggregate_starts_by_provider_year data (Some (most_recent_year_of data))) (fst r) []))) \<and>
      (pooled = [] \<longleftrightarrow> {p \<in> provider_clean ` set data. \<not> shown_individually data min_starts p} = {}) \<and>
      (pooled \<noteq> [] \<longrightarrow>
         (\<exists>cells. pooled = [(''All other providers'', cells)] \<and> length cells = length yks \<and>
            (\<forall>i<length yks. cell_value (cells ! i) =
               (\<Sum>p\<in>{p \<in> provider_clean ` set data. \<not> shown_individually data min_starts p}.
                  row_value (most_recent_year_of data) qks
                    (dict_get (aggregate_starts_by_provider_year data (Some (most_recent_year_of data))) p [])
                    (yks ! i)))))"
proof -
  let ?mry = "most_recent_year_of data"
  let ?agg = "aggregate_starts_by_provider_year data (Some ?mry)"
  let ?P = "\<lambda>x. recent_starts ?mry (snd x) \<ge> min_starts \<or> fst x \<in> set ALWAYS_SHOW_PROVIDERS"
  let ?maj = "major_providers_of ?mry min_starts ?agg"
  let ?oth = "other_providers_of ?mry min_starts ?agg"
  let ?shown = "{p \<in> provider_clean ` set data. shown_individually data min_starts p}"
  let ?rest = "{p \<in> provider_clean ` set data. \<not> shown_individually data min_starts p}"
  from prepare_starts_Inr[OF pr ne] obtain srt final where
    t: "starts_table ?mry (quarterly_keys_of ?mry srt) final ?agg min_starts
        (standard_code (hd data) @ '' '' @ standard_name (hd data) @ '' starts'') = (headers, rows, title)"
    by blast
  let ?qks = "quarterly_keys_of ?mry srt"
  let ?ind = "map (\<lambda>x. (fst x, map Num (row_values ?mry ?qks final (snd x)))) ?maj"
  let ?pool = "if ?oth \<noteq> []
         then [(''All other providers'', map (\<lambda>k. Num (column_total ?mry ?qks ?oth k)) final)]
         else []"
  from t have h: "headers = ''Provider'' # map header_of final"
    and r: "rows = (''**Total**'', map (\<lambda>k. Bold (column_total ?mry ?qks ?agg k)) final) # ?ind @ ?pool"
    unfolding starts_table_rows by simp_all
  have da: "distinct (map fst ?agg)" by (rule distinct_aggregate)
  have prov: "fst ` set ?agg = provider_clean ` set data" by (rule providers_aggregate)
  have px: "?P x \<longleftrightarrow> shown_individually data min_starts (fst x)" if "x \<in> set ?agg" for x
    using agg_snd[OF da that, of "[]"] by (simp add: shown_individually_def recent_total_def)
  have majdef: "?maj = sort_reverse (\<lambda>x. recent_starts ?mry (snd x)) (filter ?P ?agg)"
    by (simp add: major_providers_of_def case_prod_unfold)
  have othdef: "?oth = filter (\<lambda>x. \<not> ?P x) ?agg"
    by (simp add: other_providers_of_def case_prod_unfold)
  have smaj: "set ?maj = {x \<in> set ?agg. ?P x}"
    unfolding majdef by (simp add: set_sort_reverse)
  have c1: "tl rows = ?ind @ ?pool" using r by simp
  have c2: "length final = length headers - 1" using h by simp
  have c3: "distinct (map fst ?ind)"
  proof -
    have "distinct (map fst (filter ?P ?agg))" using da by (rule distinct_map_filter)
    then have "distinct (map fst ?maj)" unfolding majdef by (rule distinct_fst_sort_reverse)
    then show ?thesis by (simp add: comp_def)
  qed
  have c4: "set (map fst ?ind) = ?shown"
  proof -
    have "set (map fst ?ind) = fst ` set ?maj" by (simp add: comp_def)
    also have "\<dots> = fst ` {x \<in> set ?agg. ?P x}" using smaj by simp
    also have "\<dots> = {p \<in> fst ` set ?agg. shown_individually data min_starts p}"
      using px by (auto simp: image_iff)
    finally show ?thesis using prov by simp
  qed
  have c5: "sorted (rev (map (\<lambda>r. recent_total data (fst r)) ?ind))"
  proof -
    have "map (\<lambda>r. recent_total data (fst r)) ?ind = map (\<lambda>x. recent_total data (fst x)) ?maj"
      by (simp add: comp_def)
    also have "\<dots> = map (\<lambda>x. recent_starts ?mry (snd x)) ?maj"
    proof (intro map_cong refl)
      fix x assume "x \<in> set ?maj"
      then have "x \<in> set ?agg" using smaj by simp
      then show "recent_total data (fst x) = recent_starts ?mry (snd x)"
        using agg_snd[OF da, of x "[]"] by (simp add: recent_total_def)
    qed
    finally show ?thesis unfolding majdef by (simp only: sorted_rev_sort_reverse)
  qed
  have c6: "\<forall>r\<in>set ?ind. snd r = map Num (row_values ?mry ?qks final (dict_get ?agg (fst r) []))"
  proof
    fix r assume "r \<in> set ?ind"
    then obtain x where x: "x \<in> set ?maj" and rx: "r = (fst x, map Num (row_values ?mry ?qks final (snd x)))"
      by auto
    have "x \<in> set ?agg" using x smaj by simp
    then have "dict_get ?agg (fst x) [] = snd x" using agg_snd[OF da] by simp
    then show "snd r = map Num (row_values ?mry ?qks final (dict_get ?agg (fst r) []))"
      using rx by simp
  qed
  have soth: "fst ` set ?oth = ?rest"
  proof -
    have "fst ` set ?oth = fst ` {x \<in> set ?agg. \<not> ?P x}" unfolding othdef by simp
    also have "\<dots> = {p \<in> fst ` set ?agg. \<not> shown_individually data min_starts p}"
      using px by (auto simp: image_iff)
    finally show ?thesis using prov by simp
  qed
  have c7: "?pool = [] \<longleftrightarrow> ?rest = {}"
  proof -
    have "?pool = [] \<longleftrightarrow> ?oth = []" by simp
    also have "\<dots> \<longleftrightarrow> fst ` set ?oth = {}" by simp
    finally show ?thesis using soth by simp
  qed
  have doth: "distinct (map fst ?oth)" unfolding othdef using da by (rule distinct_map_filter)
  have tot: "column_total ?mry ?qks ?oth k =
      (\<Sum>p\<in>?rest. row_value ?mry ?qks (dict_get ?agg p []) k)" for k
  proof -
    have "column_total ?mry ?qks ?oth k = (\<Sum>x\<leftarrow>?oth. row_value ?mry ?qks (snd x) k)"
      by (rule column_total_eq)
    also have "\<dots> = (\<Sum>x\<leftarrow>?oth. row_value ?mry ?qks (dict_get ?agg (fst x) []) k)"
    proof (intro arg_cong[where f=sum_list] map_cong refl)
      fix x assume "x \<in> set ?oth"
      then have "x \<in> set ?agg" unfolding othdef by simp
      then show "row_value ?mry ?qks (snd x) k = row_value ?mry ?qks (dict_get ?agg (fst x) []) k"
        using agg_snd[OF da, of x "[]"] by simp
    qed
    also have "\<dots> = (\<Sum>p\<leftarrow>map fst ?oth. row_value ?mry ?qks (dict_get ?agg p []) k)"
      by (simp add: comp_def)
    also have "\<dots> = (\<Sum>p\<in>set (map fst ?oth). row_value ?mry ?qks (dict_get ?agg p []) k)"
      using doth by (rule sum_list_distinct_conv_sum_set)
    finally show ?thesis using soth by simp
  qed
  have c8: "?pool \<noteq> [] \<longrightarrow>
         (\<exists>cells. ?pool = [(''All other providers'', cells)] \<and> length cells = length final \<and>
            (\<forall>i<length final. cell_value (cells ! i) =
               (\<Sum>p\<in>?rest. row_value ?mry ?qks (dict_get ?agg p []) (final ! i))))"
  proof
    assume "?pool \<noteq> []"
    then have o: "?oth \<noteq> []" by (simp split: if_splits)
    let ?cells = "map (\<lambda>k. Num (column_total ?mry ?qks ?oth k)) final"
    have "?pool = [(''All other providers'', ?cells)]" using o by simp
    moreover have "length ?cells = length final" by simp
    moreover have "\<forall>i<length final. cell_value (?cells ! i) =
               (\<Sum>p\<in>?rest. row_value ?mry ?qks (dict_get ?agg p []) (final ! i))"
      by (simp add: cell_value_def tot)
    ultimately show "\<exists>cells. ?pool = [(''All other providers'', cells)] \<and> length cells = length final \<and>
            (\<forall>i<length final. cell_value (cells ! i) =
               (\<Sum>p\<in>?rest. row_value ?mry ?qks (dict_get ?agg p []) (final ! i)))"
      by blast
  qed
  show ?thesis
    apply (rule exI[of _ ?ind], rule exI[of _ ?pool], rule exI[of _ ?qks], rule exI[of _ final])
    using c1 c2 c3 c4 c5 c6 c7 c8 by (intro conjI)
qed

subsection \<open>The partition into individual and pooled rows\<close>

lemma starts_example_table_rev:
  "prepare_starts_table_data rev starts_example 3 =
     Inr ([''Provider'', ''2024-25'', ''2024-25 Q1'', ''2024-25 Q2''],
          [(''**Total**'', [Bold 19, Bold 13, Bold 6]),
           (''A'', [Num 10, Num 10, Num 0]), (''C'', [Num 6, Num 0, Num 6]),
           (''All other providers'', [Num 3, Num 3, Num 0])],
          ''ST0116 Software developer starts'')"
  by code_simp

text \<open>
  C4 (amended). The total that decides a provider's row is the sum of the starts of all its
  records of the most recent year, those without a quarter included. When the starts table
  is produced, the rows after the Total row are the individual rows followed by the pooled
  rows. The individual rows name, each exactly once, the providers for whom that sum reaches
  the threshold or who are always shown, in descending order of that sum, and each shows that
  provider's own values. There is a pooled row exactly when some provider is not shown
  individually; it is the single row \<open>All other providers\<close>, and each of its cells is the sum
  over exactly those providers, each counted once. When every record of the (non-empty) most
  recent year has a positive quarter, that sum is the value the provider shows in the total
  column of the most recent year. Providers with 10, 2, 6 and 1 starts and threshold 3 give
  the individual rows 10 and 6, a pooled row of 3 and Total 19, whatever the iteration order
  of the key set.
\<close>

theorem threshold_bucketing:
  "(prepare_starts_table_data so data min_starts = Inr (headers, rows, title) \<and> rows \<noteq> [] \<longrightarrow>
     (\<exists>individual pooled qks yks.
        tl rows = individual @ pooled \<and> length yks = length headers - 1 \<and>
        distinct (map fst individual) \<and>
        set (map fst individual) = {p \<in> provider_clean ` set data. shown_individually data min_starts p} \<and>
        sorted (rev (map (\<lambda>r. recent_total data (fst r)) individual)) \<and>
        (\<forall>r\<in>set individual. snd r = map Num (row_values (most_recent_year_of data) qks yks
            (dict_get (aggregate_starts_by_provider_year data (Some (most_recent_year_of data))) (fst r) []))) \<and>
        (pooled = [] \<longleftrightarrow> {p \<in> provider_clean ` set data. \<not> shown_individually data min_starts p} = {}) \<and>
        (pooled \<noteq> [] \<longrightarrow>
           (\<exists>cells. pooled = [(''All other providers'', cells)] \<and> length cells = length yks \<and>
              (\<forall>i<length yks. cell_value (cells ! i) =
                 (\<Sum>p\<in>{p \<in> provider_clean ` set data. \<not> shown_individually data min_starts p}.
                    row_value (most_recent_year_of data) qks
                      (dict_get (aggregate_starts_by_provider_year data (Some (most_recent_year_of data))) p [])
                      (yks ! i))))))) \<and>
   (\<forall>p. recent_total data p =
      (\<Sum>r\<leftarrow>data. if provider_clean r = p \<and> year r = most_recent_year_of data then starts r else 0)) \<and>
   prepare_starts_table_data (\<lambda>xs. xs) starts_example 3 =
     Inr ([''Provider'', ''2024-25'', ''2024-25 Q1'', ''2024-25 Q2''],
          [(''**Total**'', [Bold 19, Bold 13, Bold 6]),
           (''A'', [Num 10, Num 10, Num 0]), (''C'', [Num 6, Num 0, Num 6]),
           (''All other providers'', [Num 3, Num 3, Num 0])],
          ''ST0116 Software developer starts'') \<and>
   prepare_starts_table_data rev starts_example 3 =
     Inr ([''Provider'', ''2024-25'', ''2024-25 Q1'', ''2024-25 Q2''],
          [(''**Total**'', [Bold 19, Bold 13, Bold 6]),
           (''A'', [Num 10, Num 10, Num 0]), (''C'', [Num 6, Num 0, Num 6]),
           (''All other providers'', [Num 3, Num 3, Num 0])],
          ''ST0116 Software developer starts'') \<and>
   (permutes so \<and> most_recent_year_of data \<noteq> [] \<and>
    (\<forall>r\<in>set data. year r = most_recent_year_of data \<longrightarrow> 0 < quarter r) \<and>
    sorted_year_keys so
      (aggregate_starts_by_provider_year data (Some (most_recent_year_of data))) = Inr sks \<longrightarrow>
      (\<forall>p. recent_total data p =
         row_value (most_recent_year_of data) (quarterly_keys_of (most_recent_year_of data) sks)
           (dict_get (aggregate_starts_by_provider_year data (Some (most_recent_year_of data))) p [])
           (most_recent_year_of data)))"
proof (intro conjI allI)
  show "prepare_starts_table_data so data min_starts = Inr (headers, rows, title) \<and> rows \<noteq> [] \<longrightarrow>
     (\<exists>individual pooled qks yks.
        tl rows = individual @ pooled \<and> length yks = length headers - 1 \<and>
        distinct (map fst individual) \<and>
        set (map fst individual) = {p \<in> provider_clean ` set data. shown_individually data min_starts p} \<and>
        sorted (rev (map (\<lambda>r. recent_total data (fst r)) individual)) \<and>
        (\<forall>r\<in>set individual. snd r = map Num (row_values (most_recent_year_of data) qks yks
            (dict_get (aggregate_starts_by_provider_year data (Some (most_recent_year_of data))) (fst r) []))) \<and>
        (pooled = [] \<longleftrightarrow> {p \<in> provider_clean ` set data. \<not> shown_individually data min_starts p} = {}) \<and>
        (pooled \<noteq> [] \<longrightarrow>
           (\<exists>cells. pooled = [(''All other providers'', cells)] \<and> length cells = length yks \<and>
              (\<forall>i<length yks. cell_value (cells ! i) =
                 (\<Sum>p\<in>{p \<in> provider_clean ` set data. \<not> shown_individually data min_starts p}.
                    row_value (most_recent_year_of data) qks
                      (dict_get (aggregate_starts_by_provider_year data (Some (most_recent_year_of data))) p [])
                      (yks ! i))))))"
  proof
    assume a: "prepare_starts_table_data so data min_starts = Inr (headers, rows, title) \<and> rows \<noteq> []"
    then have pr: "prepare_starts_table_data so data min_starts = Inr (headers, rows, title)"
      and ne: "rows \<noteq> []" by simp_all
    from threshold_partition[OF pr ne] show "\<exists>individual pooled qks yks.
        tl rows = individual @ pooled \<and> length yks = length headers - 1 \<and>
        distinct (map fst individual) \<and>
        set (map fst individual) = {p \<in> provider_clean ` set data. shown_individually data min_starts p} \<and>
        sorted (rev (map (\<lambda>r. recent_total data (fst r)) individual)) \<and>
        (\<forall>r\<in>set individual. snd r = map Num (row_values (most_recent_year_of data) qks yks
            (dict_get (aggregate_starts_by_provider_year data (Some (most_recent_year_of data))) (fst r) []))) \<and>
        (pooled = [] \<longleftrightarrow> {p \<in> provider_clean ` set data. \<not> shown_individually data min_starts p} = {}) \<and>
        (pooled \<noteq> [] \<longrightarrow>
           (\<exists>cells. pooled = [(''All other providers'', cells)] \<and> length cells = length yks \<and>
              (\<forall>i<length yks. cell_value (cells ! i) =
                 (\<Sum>p\<in>{p \<in> provider_clean ` set data. \<not> shown_individually data min_starts p}.
                    row_value (most_recent_year_of data) qks
                      (dict_get (aggregate_starts_by_provider_year data (Some (most_recent_year_of data))) p [])
                      (yks ! i)))))" .
  qed
next
  fix p show "recent_total data p =
      (\<Sum>r\<leftarrow>data. if provider_clean r = p \<and> year r = most_recent_year_of data then starts r else 0)"
    by (rule recent_total_eq)
next
  show "prepare_starts_table_data (\<lambda>xs. xs) starts_example 3 =
     Inr ([''Provider'', ''2024-25'', ''2024-25 Q1'', ''2024-25 Q2''],
          [(''**Total**'', [Bold 19, Bold 13, Bold 6]),
           (''A'', [Num 10, Num 10, Num 0]), (''C'', [Num 6, Num 0, Num 6]),
           (''All other providers'', [Num 3, Num 3, Num 0])],
          ''ST0116 Software developer starts'')"
    by (rule starts_example_table)
  show "prepare_starts_table_data rev starts_example 3 =
     Inr ([''Provider'', ''2024-25'', ''2024-25 Q1'', ''2024-25 Q2''],
          [(''**Total**'', [Bold 19, Bold 13, Bold 6]),
           (''A'', [Num 10, Num 10, Num 0]), (''C'', [Num 6, Num 0, Num 6]),
           (''All other providers'', [Num 3, Num 3, Num 0])],
          ''ST0116 Software developer starts'')"
    by (rule starts_example_table_rev)
next
  show "permutes so \<and> most_recent_year_of data \<noteq> [] \<and>
    (\<forall>r\<in>set data. year r = most_recent_year_of data \<longrightarrow> 0 < quarter r) \<and>
    sorted_year_keys so
      (aggregate_starts_by_provider_year data (Some (most_recent_year_of data))) = Inr sks \<longrightarrow>
      (\<forall>p. recent_total data p =
         row_value (most_recent_year_of data) (quarterly_keys_of (most_recent_year_of data) sks)
           (dict_get (aggregate_starts_by_provider_year data (Some (most_recent_year_of data))) p [])
           (most_recent_year_of data))"
  proof (intro impI allI)
    fix p
    assume a: "permutes so \<and> most_recent_year_of data \<noteq> [] \<and>
      (\<forall>r\<in>set data. year r = most_recent_year_of data \<longrightarrow> 0 < quarter r) \<and>
      sorted_year_keys so
        (aggregate_starts_by_provider_year data (Some (most_recent_year_of data))) = Inr sks"
    then have "row_value (most_recent_year_of data) (quarterly_keys_of (most_recent_year_of data) sks)
           (dict_get (aggregate_starts_by_provider_year data (Some (most_recent_year_of data))) p [])
           (most_recent_year_of data) =
         matrix_get (aggregate_starts_by_provider_year data None) p (most_recent_year_of data)"
      using refined_sum_eq[of so data sks p] by blast
    also have "\<dots> = (\<Sum>r\<leftarrow>data. if provider_clean r = p \<and> year r = most_recent_year_of data
        then starts r else 0)"
      by (simp add: matrix_get_aggregate year_key_of_def)
    also have "\<dots> = recent_total data p" by (rule recent_total_eq[symmetric])
    finally show "recent_total data p =
         row_value (most_recent_year_of data) (quarterly_keys_of (most_recent_year_of data) sks)
           (dict_get (aggregate_starts_by_provider_year data (Some (most_recent_year_of data))) p [])
           (most_recent_year_of data)" by (rule sym)
  qed
qed

text \<open>
  The claim as stated fails when records of the most recent year have no quarter. A provider
  with 4 starts without a quarter and 1 start in quarter 1 shows a most recent total of 1,
  below the threshold 3, yet gets a row of its own; and a provider with 10 starts without a
  quarter, showing 0, is listed before a provider showing 5.
\<close>

theorem threshold_bucketing_counterexample:
  "prepare_starts_table_data (\<lambda>xs. xs) quarterless_example 3 =
     Inr ([''Provider'', ''2024-25'', ''2024-25'', ''2024-25 Q1''],
          [(''**Total**'', [Bold 3, Bold 3, Bold 3]),
           (''A'', [Num 1, Num 1, Num 1]),
           (''All other providers'', [Num 2, Num 2, Num 2])],
          ''ST0116 Software developer starts'') \<and>
   prepare_starts_table_data rev quarterless_example 3 =
     Inr ([''Provider'', ''2024-25'', ''2024-25'', ''2024-25 Q1''],
          [(''**Total**'', [Bold 3, Bold 3, Bold 3]),
           (''A'', [Num 1, Num 1, Num 1]),
           (''All other providers'', [Num 2, Num 2, Num 2])],
          ''ST0116 Software developer starts'') \<and>
   row_value ''2024-25'' [''2024-25 Q1'']
     (dict_get (aggregate_starts_by_provider_year quarterless_example (Some ''2024-25'')) ''A'' [])
     ''2024-25'' = 1 \<and>
   recent_total quarterless_example ''A'' = 5 \<and>
   prepare_starts_table_data (\<lambda>xs. xs) quarterless_first_example 3 =
     Inr ([''Provider'', ''2024-25'', ''2024-25'', ''2024-25 Q1''],
          [(''**Total**'', [Bold 5, Bold 5, Bold 5]),
           (''A'', [Num 0, Num 0, Num 0]), (''B'', [Num 5, Num 5, Num 5])],
          ''ST0116 Software developer starts'') \<and>
   prepare_starts_table_data rev quarterless_first_example 3 =
     Inr ([''Provider'', ''2024-25'', ''2024-25'', ''2024-25 Q1''],
          [(''**Total**'', [Bold 5, Bold 5, Bold 5]),
           (''A'', [Num 0, Num 0, Num 0]), (''B'', [Num 5, Num 5, Num 5])],
          ''ST0116 Software developer starts'')"
  by (intro conjI; code_simp)

theorem threshold_bucketing_witness:
  "prepare_starts_table_data (\<lambda>xs. xs) starts_example 3 =
     Inr ([''Provider'', ''2024-25'', ''2024-25 Q1'', ''2024-25 Q2''],
          [(''**Total**'', [Bold 19, Bold 13, Bold 6]),
           (''A'', [Num 10, Num 10, Num 0]), (''C'', [Num 6, Num 0, Num 6]),
           (''All other providers'', [Num 3, Num 3, Num 0])],
          ''ST0116 Software developer starts'') \<and>
   (\<exists>individual pooled.
       [(''A'', [Num 10, Num 10, Num 0]), (''C'', [Num 6, Num 0, Num 6]),
        (''All other providers'', [Num 3, Num 3, Num 0])] = individual @ pooled \<and>
       distinct (map fst individual) \<and>
       set (map fst individual) =
         {p \<in> provider_clean ` set starts_example. shown_individually starts_example 3 p} \<and>
       sorted (rev (map (\<lambda>r. recent_total starts_example (fst r)) individual))) \<and>
   recent_total starts_example ''A'' = 10 \<and> recent_total starts_example ''B'' = 2 \<and>
   recent_total starts_example ''C'' = 6 \<and> recent_total starts_example ''D'' = 1 \<and>
   row_value ''202425'' (quarterly_keys_of ''202425'' [''202425 Q1'', ''202425 Q2''])
     (dict_get (aggregate_starts_by_provider_year starts_example (Some ''202425'')) ''A'' [])
     ''202425'' = 10"
proof -
  let ?H = "[''Provider'', ''2024-25'', ''2024-25 Q1'', ''2024-25 Q2'']"
  let ?R = "[(''**Total**'', [Bold 19, Bold 13, Bold 6]),
           (''A'', [Num 10, Num 10, Num 0]), (''C'', [Num 6, Num 0, Num 6]),
           (''All other providers'', [Num 3, Num 3, Num 0])]"
  let ?T = "''ST0116 Software developer starts''"
  note th = threshold_bucketing[of "\<lambda>xs. xs" starts_example 3 ?H ?R ?T
      "[''202425 Q1'', ''202425 Q2'']"]
  have e: "prepare_starts_table_data (\<lambda>xs. xs) starts_example 3 = Inr (?H, ?R, ?T)"
    by (rule th[THEN conjunct2, THEN conjunct2, THEN conjunct1])
  have ne: "?R \<noteq> []" by simp
  from mp[OF th[THEN conjunct1] conjI[OF e ne]] obtain individual pooled where
    a: "tl ?R = individual @ pooled" and b: "distinct (map fst individual)"
    and c: "set (map fst individual) =
         {p \<in> provider_clean ` set starts_example. shown_individually starts_example 3 p}"
    and d: "sorted (rev (map (\<lambda>r. recent_total starts_example (fst r)) individual))"
    by (elim exE conjE) (rule that)
  have a': "[(''A'', [Num 10, Num 10, Num 0]), (''C'', [Num 6, Num 0, Num 6]),
        (''All other providers'', [Num 3, Num 3, Num 0])] = individual @ pooled"
    using a by simp
  have x: "\<exists>individual pooled.
       [(''A'', [Num 10, Num 10, Num 0]), (''C'', [Num 6, Num 0, Num 6]),
        (''All other providers'', [Num 3, Num 3, Num 0])] = individual @ pooled \<and>
       distinct (map fst individual) \<and>
       set (map fst individual) =
         {p \<in> provider_clean ` set starts_example. shown_individually starts_example 3 p} \<and>
       sorted (rev (map (\<lambda>r. recent_total starts_example (fst r)) individual))"
    by (intro exI conjI) (rule a', rule b, rule c, rule d)
  have m: "most_recent_year_of starts_example = ''202425''" by code_simp
  have rt: "recent_total starts_example p =
      (\<Sum>r\<leftarrow>starts_example. if provider_clean r = p \<and> year r = ''202425'' then starts r else 0)" for p
    using th[THEN conjunct2, THEN conjunct1, rule_format, of p] unfolding m .
  have r1: "recent_total starts_example ''A'' = 10" unfolding rt by (simp add: starts_example_def rec_def)
  have r2: "recent_total starts_example ''B'' = 2" unfolding rt by (simp add: starts_example_def rec_def)
  have r3: "recent_total starts_example ''C'' = 6" unfolding rt by (simp add: starts_example_def rec_def)
  have r4: "recent_total starts_example ''D'' = 1" unfolding rt by (simp add: starts_example_def rec_def)
  have ne': "''202425'' \<noteq> []" by simp
  have q: "\<forall>r\<in>set starts_example. year r = ''202425'' \<longrightarrow> 0 < quarter r"
    by (simp add: starts_example_def rec_def)
  have sk: "sorted_year_keys (\<lambda>xs. xs)
      (aggregate_starts_by_provider_year starts_example (Some ''202425'')) =
      Inr [''202425 Q1'', ''202425 Q2'']"
    by code_simp
  have h: "permutes (\<lambda>xs. xs) \<and> ''202425'' \<noteq> [] \<and>
      (\<forall>r\<in>set starts_example. year r = ''202425'' \<longrightarrow> 0 < quarter r) \<and>
      sorted_year_keys (\<lambda>xs. xs)
        (aggregate_starts_by_provider_year starts_example (Some ''202425'')) =
        Inr [''202425 Q1'', ''202425 Q2'']"
    by (intro conjI) (rule permutes_id, rule ne', rule q, rule sk)
  note last = th[THEN conjunct2, THEN conjunct2, THEN conjunct2, THEN conjunct2, unfolded m]
  have "recent_total starts_example ''A'' =
      row_value ''202425'' (quarterly_keys_of ''202425'' [''202425 Q1'', ''202425 Q2''])
        (dict_get (aggregate_starts_by_provider_year starts_example (Some ''202425'')) ''A'' [])
        ''202425''"
    using mp[OF last h] by (rule spec)
  then have r5: "row_value ''202425'' (quarterly_keys_of ''202425'' [''202425 Q1'', ''202425 Q2''])
        (dict_get (aggregate_starts_by_provider_year starts_example (Some ''202425'')) ''A'' [])
        ''202425'' = 10"
    using r1 by simp
  show ?thesis
    by (intro conjI) (rule e, rule x, rule r1, rule r2, rule r3, rule r4, rule r5)
qed

section \<open>Sub-period ordinals above 4\<close>

lemma sorted_insert_before:
  fixes f :: "'a \<Rightarrow> 'k::linorder"
  assumes s: "sorted (map f (pre @ k # post))" and a: "\<forall>x\<in>set pre. f x \<le> f m" and b: "f m \<le> f k"
  shows "sorted (map f (pre @ m # k # post))"
proof -
  from s have sp: "sorted (map f pre)" and sk: "sorted (map f (k # post))"
    and cr: "\<forall>x\<in>set pre. \<forall>y\<in>set (k # post). f x \<le> f y"
    by (auto simp: sorted_append)
  have kp: "\<forall>y\<in>set post. f k \<le> f y" using sk by auto
  have mp: "\<forall>y\<in>set (k # post). f m \<le> f y" using b kp by auto
  have sm: "sorted (map f (m # k # post))" using sk mp by auto
  have cr': "\<forall>x\<in>set pre. \<forall>y\<in>set (m # k # post). f x \<le> f y" using cr a by auto
  show ?thesis using sp sm cr' by (auto simp: sorted_append)
qed

lemma refined_key_cases:
  assumes "str_contains '' Q'' (year_key_of (Some mry) r)" and "\<not> str_contains '' Q'' (year r)"
  shows "mry \<noteq> [] \<and> year r = mry \<and> 0 < quarter r \<and>
         year_key_of (Some mry) r = mry @ '' Q'' @ str_of_int (quarter r)"
  using assms by (auto simp: year_key_of_Some split: if_splits)

lemma final_keys_sorted:
  assumes p: "permutes so" and ne: "data \<noteq> []"
    and ny: "\<forall>r\<in>set data. \<not> str_contains '' Q'' (year r)"
    and s: "sorted_year_keys so (aggregate_starts_by_provider_year data (Some (most_recent_year_of data))) = Inr srt"
    and ss: "set srt = year_key_of (Some (most_recent_year_of data)) ` set data"
    and ds: "distinct srt"
    and b: "build_final_year_keys (most_recent_year_of data)
              (quarterly_keys_of (most_recent_year_of data) srt) [] srt = Inr final"
  shows "sorted (map sort_key_val final)"
proof -
  let ?mry = "most_recent_year_of data"
  let ?agg = "aggregate_starts_by_provider_year data (Some ?mry)"
  let ?qks = "quarterly_keys_of ?mry srt"
  have ms: "mset (so (all_year_keys ?agg)) = mset (all_year_keys ?agg)"
    using p by (simp add: permutes_def)
  have st: "sorted (map sort_key_val srt)" using sorted_year_keys_mset(4)[OF s ms] .
  show ?thesis
  proof (cases "?qks = []")
    case True
    then have "final = srt" using build_final_no_quarterly[OF b] by simp
    then show ?thesis using st by simp
  next
    case False
    define q0 where "q0 = hd ?qks"
    from build_final_with_quarterly[OF b False ds] obtain pre post where
      k: "srt = pre @ q0 # post" and f: "final = pre @ ?mry # q0 # post"
      and np: "\<forall>k\<in>set pre. \<not> (startswith k ?mry \<and> str_contains '' Q'' k)"
      unfolding q0_def by blast
    have nm: "\<not> str_contains '' Q'' ?mry"
      using most_recent_year_mem[OF ne] ny by auto
    have vm: "sort_key_val ?mry = (?mry, 0)" using nm by (rule sort_key_val_plain)
    have a: "\<forall>x\<in>set pre. sort_key_val x \<le> sort_key_val ?mry"
    proof
      fix x assume x: "x \<in> set pre"
      have "x \<in> set srt" using x k by simp
      then obtain r where r: "r \<in> set data" and xr: "x = year_key_of (Some ?mry) r"
        using ss by auto
      have nr: "\<not> str_contains '' Q'' (year r)" using ny r by blast
      have nx: "\<not> str_contains '' Q'' x"
      proof
        assume c: "str_contains '' Q'' x"
        from refined_key_cases[OF c[unfolded xr] nr]
        have "x = ?mry @ '' Q'' @ str_of_int (quarter r)" using xr by simp
        then have "startswith x ?mry" by (simp add: startswith_def)
        then show False using np x c by blast
      qed
      then have vx: "sort_key_val x = (x, 0)" by (rule sort_key_val_plain)
      have xy: "x = year r"
      proof (rule ccontr)
        assume "x \<noteq> year r"
        then have "x = ?mry @ '' Q'' @ str_of_int (quarter r)"
          using xr by (auto simp: year_key_of_Some split: if_splits)
        moreover have "str_contains '' Q'' (?mry @ '' Q'' @ str_of_int (quarter r))"
          using str_contains_iff by blast
        ultimately show False using nx by simp
      qed
      have "sort_key_val x = (year r, 0)" using vx xy by simp
      moreover have "year r \<le> ?mry" using year_le_most_recent[OF r] .
      ultimately show "sort_key_val x \<le> sort_key_val ?mry"
        unfolding vm by (simp add: less_eq_prod_def)
    qed
    have "q0 \<in> set ?qks" unfolding q0_def using False by (rule hd_in_set)
    then have hs: "q0 \<in> set srt" and hc: "str_contains '' Q'' q0"
      by (simp_all add: quarterly_keys_of_def)
    from hs obtain r where r: "r \<in> set data" and hr: "q0 = year_key_of (Some ?mry) r"
      using ss by auto
    have nr: "\<not> str_contains '' Q'' (year r)" using ny r by blast
    from refined_key_cases[OF hc[unfolded hr] nr]
    have q: "0 < quarter r" and he: "q0 = ?mry @ '' Q'' @ str_of_int (quarter r)"
      using hr by simp_all
    have "sort_key_val (?mry @ '' Q'' @ str_of_int (quarter r)) = (?mry, quarter r)"
      using nm q by (intro sort_key_val_refined) simp_all
    then have bq: "sort_key_val ?mry \<le> sort_key_val q0"
      unfolding vm he using q by (simp add: less_eq_prod_def)
    have st': "sorted (map sort_key_val (pre @ q0 # post))" using st k by simp
    show ?thesis
      unfolding f using st' a bq by (rule sorted_insert_before)
  qed
qed

lemma sorted_positions:
  fixes f :: "'a \<Rightarrow> 'k::linorder"
  assumes s: "sorted (map f xs)" and a: "a \<in> set xs" and b: "b \<in> set xs" and l: "f a < f b"
  shows "\<exists>i j. i < j \<and> j < length xs \<and> xs ! i = a \<and> xs ! j = b"
proof -
  from a obtain i where i: "i < length xs" "xs ! i = a" by (auto simp: in_set_conv_nth)
  from b obtain j where j: "j < length xs" "xs ! j = b" by (auto simp: in_set_conv_nth)
  have "i < j"
  proof (rule ccontr)
    assume "\<not> i < j"
    then have "j \<le> i" by simp
    then have "map f xs ! j \<le> map f xs ! i"
      using s i(1) by (intro sorted_nth_mono) simp_all
    then have "f b \<le> f a" using i j by simp
    then show False using l by simp
  qed
  then show ?thesis using i j by blast
qed

text \<open>
  C8 (amended). A quarter above 4 is accepted, not rejected. In a file name with a run of
  six digits the parser returns the digit of the leftmost \<open>-q<digit>\<close> token as the
  sub-period, whatever digit it is, and each of the values 0 to 9 is returned for some name.
  For every non-empty record set whose year strings do not contain \<open>' Q'\<close>, table preparation
  succeeds whatever the quarters are; the columns are the final keys, which are in ascending
  order of their sort keys; each record of the most recent year, when that year is not the
  empty string, with a positive quarter \<open>n\<close> has its key among them, with sort key
  \<open>(year, n)\<close> and labelled with the formatted year followed by \<open>Qn\<close>; and of two such
  records the column of the smaller quarter stands left of the column of the greater.
\<close>

theorem quarter_above_four_accepted:
  "(six_digits_at f i \<and> quarter_token_at f k \<and> (\<forall>j<k. \<not> quarter_token_at f j) \<longrightarrow>
      snd (snd (extract_year_quarter_from_filename f)) = digit_val (f ! (k + 2))) \<and>
   (\<forall>d. is_digit d \<longrightarrow>
      extract_year_quarter_from_filename (''data-202425-q'' @ [d] @ ''.csv'') = (2024, 25, digit_val d)) \<and>
   (permutes so \<and> data \<noteq> [] \<and> (\<forall>r\<in>set data. \<not> str_contains '' Q'' (year r)) \<longrightarrow>
      (\<exists>final rows title.
          prepare_starts_table_data so data min_starts =
            Inr (''Provider'' # map header_of final, rows, title) \<and>
          sorted (map sort_key_val final) \<and>
          (\<forall>r\<in>set data. year r = most_recent_year_of data \<and> year r \<noteq> [] \<and> 0 < quarter r \<longrightarrow>
              year r @ '' Q'' @ str_of_int (quarter r) \<in> set final \<and>
              sort_key_val (year r @ '' Q'' @ str_of_int (quarter r)) = (year r, quarter r) \<and>
              header_of (year r @ '' Q'' @ str_of_int (quarter r)) =
                format_academic_year (year r) @ '' Q'' @ str_of_int (quarter r)) \<and>
          (\<forall>r1\<in>set data. \<forall>r2\<in>set data.
              year r1 = most_recent_year_of data \<and> year r2 = most_recent_year_of data \<and>
              most_recent_year_of data \<noteq> [] \<and> 0 < quarter r1 \<and> quarter r1 < quarter r2 \<longrightarrow>
              (\<exists>i j. i < j \<and> j < length (''Provider'' # map header_of final) \<and>
                 (''Provider'' # map header_of final) ! i =
                   format_academic_year (most_recent_year_of data) @ '' Q'' @ str_of_int (quarter r1) \<and>
                 (''Provider'' # map header_of final) ! j =
                   format_academic_year (most_recent_year_of data) @ '' Q'' @ str_of_int (quarter r2)))))"
proof (intro conjI impI allI)
  assume "six_digits_at f i \<and> quarter_token_at f k \<and> (\<forall>j<k. \<not> quarter_token_at f j)"
  then show "snd (snd (extract_year_quarter_from_filename f)) = digit_val (f ! (k + 2))"
    using extract_quarter by blast
next
  fix d assume "is_digit d"
  then show "extract_year_quarter_from_filename (''data-202425-q'' @ [d] @ ''.csv'') = (2024, 25, digit_val d)"
    by (rule extract_any_quarter_digit)
next
  assume a: "permutes so \<and> data \<noteq> [] \<and> (\<forall>r\<in>set data. \<not> str_contains '' Q'' (year r))"
  let ?mry = "most_recent_year_of data"
  let ?agg = "aggregate_starts_by_provider_year data (Some ?mry)"
  let ?title = "standard_code (hd data) @ '' '' @ standard_name (hd data) @ '' starts''"
  from a have p: "permutes so" and ne: "data \<noteq> []"
    and ny: "\<forall>r\<in>set data. \<not> str_contains '' Q'' (year r)" by blast+
  from prepare_starts_succeeds[OF p ne ny, of min_starts] obtain srt final where
    s: "sorted_year_keys so ?agg = Inr srt"
    and ss: "set srt = year_key_of (Some ?mry) ` set data"
    and ds: "distinct srt"
    and b: "build_final_year_keys ?mry (quarterly_keys_of ?mry srt) [] srt = Inr final"
    and e: "prepare_starts_table_data so data min_starts =
        Inr (starts_table ?mry (quarterly_keys_of ?mry srt) final ?agg min_starts ?title)"
    by blast
  obtain rows where t: "starts_table ?mry (quarterly_keys_of ?mry srt) final ?agg min_starts ?title =
      (''Provider'' # map header_of final, rows, ?title)"
    by (simp add: starts_table_rows)
  have e': "prepare_starts_table_data so data min_starts =
      Inr (''Provider'' # map header_of final, rows, ?title)"
    using e t by simp
  have sf: "sorted (map sort_key_val final)"
    using p ne ny s ss ds b by (rule final_keys_sorted)
  have keys: "year r @ '' Q'' @ str_of_int (quarter r) \<in> set final \<and>
      sort_key_val (year r @ '' Q'' @ str_of_int (quarter r)) = (year r, quarter r) \<and>
      header_of (year r @ '' Q'' @ str_of_int (quarter r)) =
        format_academic_year (year r) @ '' Q'' @ str_of_int (quarter r)"
    if r: "r \<in> set data" and c: "year r = ?mry \<and> year r \<noteq> [] \<and> 0 < quarter r" for r
  proof (intro conjI)
    let ?k = "year r @ '' Q'' @ str_of_int (quarter r)"
    have "year_key_of (Some ?mry) r = ?k" using c by (auto simp: year_key_of_Some)
    then have "?k \<in> set srt" using ss r by force
    then show "?k \<in> set final" using build_final_subset[OF b] by blast
    have nr: "\<not> str_contains '' Q'' (year r)" using ny r by blast
    show "sort_key_val ?k = (year r, quarter r)"
      using nr c by (intro sort_key_val_refined) simp_all
    show "header_of ?k = format_academic_year (year r) @ '' Q'' @ str_of_int (quarter r)"
      using nr c by (intro header_of_refined) simp_all
  qed
  have order: "\<exists>i j. i < j \<and> j < length (''Provider'' # map header_of final) \<and>
      (''Provider'' # map header_of final) ! i =
        format_academic_year ?mry @ '' Q'' @ str_of_int (quarter r1) \<and>
      (''Provider'' # map header_of final) ! j =
        format_academic_year ?mry @ '' Q'' @ str_of_int (quarter r2)"
    if r1: "r1 \<in> set data" and r2: "r2 \<in> set data"
      and c: "year r1 = ?mry \<and> year r2 = ?mry \<and> ?mry \<noteq> [] \<and> 0 < quarter r1 \<and> quarter r1 < quarter r2"
    for r1 r2
  proof -
    let ?k1 = "?mry @ '' Q'' @ str_of_int (quarter r1)"
    let ?k2 = "?mry @ '' Q'' @ str_of_int (quarter r2)"
    have c1: "year r1 = ?mry \<and> year r1 \<noteq> [] \<and> 0 < quarter r1" using c by simp
    have c2: "year r2 = ?mry \<and> year r2 \<noteq> [] \<and> 0 < quarter r2" using c by simp
    have k1: "?k1 \<in> set final" "sort_key_val ?k1 = (?mry, quarter r1)"
      "header_of ?k1 = format_academic_year ?mry @ '' Q'' @ str_of_int (quarter r1)"
      using keys[OF r1 c1] c by simp_all
    have k2: "?k2 \<in> set final" "sort_key_val ?k2 = (?mry, quarter r2)"
      "header_of ?k2 = format_academic_year ?mry @ '' Q'' @ str_of_int (quarter r2)"
      using keys[OF r2 c2] c by simp_all
    have lt: "sort_key_val ?k1 < sort_key_val ?k2"
      unfolding k1(2) k2(2) using c by (simp add: less_prod_def)
    from sorted_positions[OF sf k1(1) k2(1) lt] obtain i j where
      ij: "i < j" "j < length final" "final ! i = ?k1" "final ! j = ?k2" by blast
    have "Suc i < Suc j" "Suc j < length (''Provider'' # map header_of final)"
      "(''Provider'' # map header_of final) ! Suc i =
         format_academic_year ?mry @ '' Q'' @ str_of_int (quarter r1)"
      "(''Provider'' # map header_of final) ! Suc j =
         format_academic_year ?mry @ '' Q'' @ str_of_int (quarter r2)"
      using ij k1(3) k2(3) by simp_all
    then show ?thesis by blast
  qed
  have K: "\<forall>r\<in>set data. year r = most_recent_year_of data \<and> year r \<noteq> [] \<and> 0 < quarter r \<longrightarrow>
              year r @ '' Q'' @ str_of_int (quarter r) \<in> set final \<and>
              sort_key_val (year r @ '' Q'' @ str_of_int (quarter r)) = (year r, quarter r) \<and>
              header_of (year r @ '' Q'' @ str_of_int (quarter r)) =
                format_academic_year (year r) @ '' Q'' @ str_of_int (quarter r)"
  proof (intro ballI impI)
    fix r assume r: "r \<in> set data" and c: "year r = ?mry \<and> year r \<noteq> [] \<and> 0 < quarter r"
    show "year r @ '' Q'' @ str_of_int (quarter r) \<in> set final \<and>
          sort_key_val (year r @ '' Q'' @ str_of_int (quarter r)) = (year r, quarter r) \<and>
          header_of (year r @ '' Q'' @ str_of_int (quarter r)) =
            format_academic_year (year r) @ '' Q'' @ str_of_int (quarter r)"
      using r c by (rule keys)
  qed
  have O: "\<forall>r1\<in>set data. \<forall>r2\<in>set data.
              year r1 = most_recent_year_of data \<and> year r2 = most_recent_year_of data \<and>
              most_recent_year_of data \<noteq> [] \<and> 0 < quarter r1 \<and> quarter r1 < quarter r2 \<longrightarrow>
              (\<exists>i j. i < j \<and> j < length (''Provider'' # map header_of final) \<and>
                 (''Provider'' # map header_of final) ! i =
                   format_academic_year (most_recent_year_of data) @ '' Q'' @ str_of_int (quarter r1) \<and>
                 (''Provider'' # map header_of final) ! j =
                   format_academic_year (most_recent_year_of data) @ '' Q'' @ str_of_int (quarter r2))"
  proof (intro ballI impI)
    fix r1 r2 assume "r1 \<in> set data" "r2 \<in> set data"
      and "year r1 = ?mry \<and> year r2 = ?mry \<and> ?mry \<noteq> [] \<and> 0 < quarter r1 \<and> quarter r1 < quarter r2"
    then show "\<exists>i j. i < j \<and> j < length (''Provider'' # map header_of final) \<and>
      (''Provider'' # map header_of final) ! i =
        format_academic_year ?mry @ '' Q'' @ str_of_int (quarter r1) \<and>
      (''Provider'' # map header_of final) ! j =
        format_academic_year ?mry @ '' Q'' @ str_of_int (quarter r2)"
      by (rule order)
  qed
  show "\<exists>final rows title.
          prepare_starts_table_data so data min_starts =
            Inr (''Provider'' # map header_of final, rows, title) \<and>
          sorted (map sort_key_val final) \<and>
          (\<forall>r\<in>set data. year r = most_recent_year_of data \<and> year r \<noteq> [] \<and> 0 < quarter r \<longrightarrow>
              year r @ '' Q'' @ str_of_int (quarter r) \<in> set final \<and>
              sort_key_val (year r @ '' Q'' @ str_of_int (quarter r)) = (year r, quarter r) \<and>
              header_of (year r @ '' Q'' @ str_of_int (quarter r)) =
                format_academic_year (year r) @ '' Q'' @ str_of_int (quarter r)) \<and>
          (\<forall>r1\<in>set data. \<forall>r2\<in>set data.
              year r1 = most_recent_year_of data \<and> year r2 = most_recent_year_of data \<and>
              most_recent_year_of data \<noteq> [] \<and> 0 < quarter r1 \<and> quarter r1 < quarter r2 \<longrightarrow>
              (\<exists>i j. i < j \<and> j < length (''Provider'' # map header_of final) \<and>
                 (''Provider'' # map header_of final) ! i =
                   format_academic_year (most_recent_year_of data) @ '' Q'' @ str_of_int (quarter r1) \<and>
                 (''Provider'' # map header_of final) ! j =
                   format_academic_year (most_recent_year_of data) @ '' Q'' @ str_of_int (quarter r2)))"
    by (intro exI conjI) (rule e', rule sf, rule K, rule O)
qed

text \<open>
  The claim as stated fails: neither a file name with \<open>-q7\<close> nor a record of quarter 5
  makes the code fail.
\<close>

theorem quarter_above_four_counterexample:
  "extract_year_quarter_from_filename ''app-underlying-data-starts-202425-q7.csv'' = (2024, 25, 7) \<and>
   prepare_starts_table_data (\<lambda>xs. xs) fifth_quarter_example 3 =
     Inr ([''Provider'', ''2024-25'', ''2024-25 Q5''],
          [(''**Total**'', [Bold 4, Bold 4]), (''A'', [Num 4, Num 4])],
          ''ST0116 Software developer starts'')"
  by (intro conjI; code_simp)

lemma seventh_quarter_name:
  "six_digits_at ''data-202425-q7.csv'' 5 \<and> quarter_token_at ''data-202425-q7.csv'' 11 \<and>
   (\<forall>j<11. \<not> quarter_token_at ''data-202425-q7.csv'' j)"
  by (simp add: six_digits_at_def quarter_token_at_def is_digit_def All_less_numeral)

lemma high_quarters_labels:
  "format_academic_year ''2024-25'' @ '' Q'' @ str_of_int 5 = ''2024-25 Q5''"
  "format_academic_year ''2024-25'' @ '' Q'' @ str_of_int 7 = ''2024-25 Q7''"
  "''2024-25'' @ '' Q'' @ str_of_int 7 = ''2024-25 Q7''"
  by (simp_all add: format_academic_year_def is_digit_def str_of_int_def string_of_nat.simps digit_char_def)

theorem quarter_above_four_accepted_witness:
  "six_digits_at ''data-202425-q7.csv'' 5 \<and> quarter_token_at ''data-202425-q7.csv'' 11 \<and>
   snd (snd (extract_year_quarter_from_filename ''data-202425-q7.csv'')) = 7 \<and>
   is_digit (CHR ''9'') \<and>
   extract_year_quarter_from_filename ''data-202425-q9.csv'' = (2024, 25, 9) \<and>
   permutes (\<lambda>xs. xs) \<and> high_quarters_example \<noteq> [] \<and>
   (\<exists>final rows title.
       prepare_starts_table_data (\<lambda>xs. xs) high_quarters_example 3 =
         Inr (''Provider'' # map header_of final, rows, title) \<and>
       sorted (map sort_key_val final) \<and>
       ''2024-25 Q7'' \<in> set final \<and>
       sort_key_val ''2024-25 Q7'' = (''2024-25'', 7) \<and>
       header_of ''2024-25 Q7'' = ''2024-25 Q7'' \<and>
       (\<exists>i j. i < j \<and> j < length (''Provider'' # map header_of final) \<and>
          (''Provider'' # map header_of final) ! i = ''2024-25 Q5'' \<and>
          (''Provider'' # map header_of final) ! j = ''2024-25 Q7''))"
proof -
  let ?f = "''data-202425-q7.csv''"
  let ?r5 = "rec ''A'' ''2024-25'' 5 3"
  let ?r7 = "rec ''A'' ''2024-25'' 7 4"
  note th = quarter_above_four_accepted[of ?f 5 11 "\<lambda>xs. xs" high_quarters_example 3]
  have n: "six_digits_at ?f 5 \<and> quarter_token_at ?f 11 \<and> (\<forall>j<11. \<not> quarter_token_at ?f j)"
    by (rule seventh_quarter_name)
  have n1: "six_digits_at ?f 5" and n2: "quarter_token_at ?f 11" using n by simp_all
  have "snd (snd (extract_year_quarter_from_filename ?f)) = digit_val (?f ! (11 + 2))"
    by (rule mp[OF th[THEN conjunct1] n])
  then have x7: "snd (snd (extract_year_quarter_from_filename ?f)) = 7"
    by (simp add: digit_val_def)
  have d: "is_digit (CHR ''9'')" by (simp add: is_digit_def)
  have x9: "extract_year_quarter_from_filename ''data-202425-q9.csv'' = (2024, 25, 9)"
    using th[THEN conjunct2, THEN conjunct1, rule_format, OF d] by (simp add: digit_val_def)
  have ne: "high_quarters_example \<noteq> []" by (simp add: high_quarters_example_def)
  have ny: "\<forall>r\<in>set high_quarters_example. \<not> str_contains '' Q'' (year r)"
    by (simp add: high_quarters_example_def rec_def startswith_def)
  have m: "most_recent_year_of high_quarters_example = ''2024-25''"
    by (simp add: most_recent_year_of_def high_quarters_example_def rec_def)
  have h: "permutes (\<lambda>xs. xs) \<and> high_quarters_example \<noteq> [] \<and>
      (\<forall>r\<in>set high_quarters_example. \<not> str_contains '' Q'' (year r))"
    by (intro conjI) (rule permutes_id, rule ne, rule ny)
  from mp[OF th[THEN conjunct2, THEN conjunct2] h, unfolded m] obtain final rows title where
    e: "prepare_starts_table_data (\<lambda>xs. xs) high_quarters_example 3 =
          Inr (''Provider'' # map header_of final, rows, title)"
    and sf: "sorted (map sort_key_val final)"
    and K: "\<forall>r\<in>set high_quarters_example. year r = ''2024-25'' \<and> year r \<noteq> [] \<and> 0 < quarter r \<longrightarrow>
              year r @ '' Q'' @ str_of_int (quarter r) \<in> set final \<and>
              sort_key_val (year r @ '' Q'' @ str_of_int (quarter r)) = (year r, quarter r) \<and>
              header_of (year r @ '' Q'' @ str_of_int (quarter r)) =
                format_academic_year (year r) @ '' Q'' @ str_of_int (quarter r)"
    and O: "\<forall>r1\<in>set high_quarters_example. \<forall>r2\<in>set high_quarters_example.
              year r1 = ''2024-25'' \<and> year r2 = ''2024-25'' \<and>
              ''2024-25'' \<noteq> [] \<and> 0 < quarter r1 \<and> quarter r1 < quarter r2 \<longrightarrow>
              (\<exists>i j. i < j \<and> j < length (''Provider'' # map header_of final) \<and>
                 (''Provider'' # map header_of final) ! i =
                   format_academic_year ''2024-25'' @ '' Q'' @ str_of_int (quarter r1) \<and>
                 (''Provider'' # map header_of final) ! j =
                   format_academic_year ''2024-25'' @ '' Q'' @ str_of_int (quarter r2))"
    by (elim exE conjE) (rule that)
  have r5: "?r5 \<in> set high_quarters_example" and r7: "?r7 \<in> set high_quarters_example"
    by (simp_all add: high_quarters_example_def)
  have c7: "year ?r7 = ''2024-25'' \<and> year ?r7 \<noteq> [] \<and> 0 < quarter ?r7" by (simp add: rec_def)
  have k7: "year ?r7 @ '' Q'' @ str_of_int (quarter ?r7) \<in> set final \<and>
      sort_key_val (year ?r7 @ '' Q'' @ str_of_int (quarter ?r7)) = (year ?r7, quarter ?r7) \<and>
      header_of (year ?r7 @ '' Q'' @ str_of_int (quarter ?r7)) =
        format_academic_year (year ?r7) @ '' Q'' @ str_of_int (quarter ?r7)"
    by (rule mp[OF bspec[OF K r7] c7])
  have y7: "year ?r7 = ''2024-25''" "quarter ?r7 = 7" by (simp_all add: rec_def)
  have a1: "''2024-25 Q7'' \<in> set final"
    and a2: "sort_key_val ''2024-25 Q7'' = (''2024-25'', 7)"
    and a3: "header_of ''2024-25 Q7'' = ''2024-25 Q7''"
    using k7 unfolding y7 high_quarters_labels by simp_all
  have c57: "year ?r5 = ''2024-25'' \<and> year ?r7 = ''2024-25'' \<and>
      ''2024-25'' \<noteq> [] \<and> 0 < quarter ?r5 \<and> quarter ?r5 < quarter ?r7"
    by (simp add: rec_def)
  have y5: "quarter ?r5 = 5" by (simp add: rec_def)
  have a4: "\<exists>i j. i < j \<and> j < length (''Provider'' # map header_of final) \<and>
          (''Provider'' # map header_of final) ! i = ''2024-25 Q5'' \<and>
          (''Provider'' # map header_of final) ! j = ''2024-25 Q7''"
    using mp[OF bspec[OF bspec[OF O r5] r7] c57] unfolding y5 y7 high_quarters_labels .
  have ex: "\<exists>final rows title.
       prepare_starts_table_data (\<lambda>xs. xs) high_quarters_example 3 =
         Inr (''Provider'' # map header_of final, rows, title) \<and>
       sorted (map sort_key_val final) \<and>
       ''2024-25 Q7'' \<in> set final \<and>
       sort_key_val ''2024-25 Q7'' = (''2024-25'', 7) \<and>
       header_of ''2024-25 Q7'' = ''2024-25 Q7'' \<and>
       (\<exists>i j. i < j \<and> j < length (''Provider'' # map header_of final) \<and>
          (''Provider'' # map header_of final) ! i = ''2024-25 Q5'' \<and>
          (''Provider'' # map header_of final) ! j = ''2024-25 Q7'')"
    apply (rule exI[of _ final], rule exI[of _ rows], rule exI[of _ title])
    by (intro conjI) (rule e, rule sf, rule a1, rule a2, rule a3, rule a4)
  show ?thesis
    by (intro conjI) (rule n1, rule n2, rule x7, rule d, rule x9, rule permutes_id, rule ne, rule ex)
qed

section \<open>The adjustments for FOUNDERS & CODERS\<close>



















end
